theory Spec2Isabelle
  imports Main "HOL-Library.AList"
begin

section \<open>Values exchanged with the container engine\<close>

text \<open>
  \<^verbatim>\<open>image-updater.js\<close> talks to the Docker engine through \<^verbatim>\<open>dockerode\<close>. Every call
  returns a promise; a rejected promise (or a thrown exception) is the left summand of
  \<open>error + 'a\<close>. An engine error carries the HTTP status code when there is one
  (\<^verbatim>\<open>err.statusCode\<close>, read by \<^verbatim>\<open>getRemoteImageId\<close>); \<open>TypeError\<close> is the exception of the
  JavaScript runtime for a property read on \<^verbatim>\<open>undefined\<close>.
\<close>

datatype error = EngineError "nat option" | TypeError

fun statusCode :: "error \<Rightarrow> nat option" where
  "statusCode (EngineError c) = c"
| "statusCode TypeError = None"

text \<open>
  JavaScript objects are association lists from property names to values. The spread
  \<^verbatim>\<open>{...a, ...b}\<close> is \<open>AList.merge a b\<close> (the properties of \<open>b\<close> win), a property
  written in an object literal or assigned later is \<open>AList.update\<close>, and reading a
  property that is absent gives \<^verbatim>\<open>undefined\<close>.
\<close>

datatype jsval =
    JUndef
  | JNull
  | JNum nat
  | JStr string
  | JArr "jsval list"
  | JObj "(string \<times> jsval) list"

type_synonym jsobj = "(string \<times> jsval) list"

definition get_field :: "jsobj \<Rightarrow> string \<Rightarrow> jsval" where
  "get_field obj k = (case map_of obj k of None \<Rightarrow> JUndef | Some v \<Rightarrow> v)"

fun as_obj :: "jsval \<Rightarrow> jsobj" where
  "as_obj (JObj kvs) = kvs"
| "as_obj _ = []"

text \<open>
  What \<^verbatim>\<open>container.inspect()\<close> resolves to, with the parts the program reads
  (\<^verbatim>\<open>Image\<close>, \<^verbatim>\<open>Config\<close>, \<^verbatim>\<open>Config.Image\<close>, \<^verbatim>\<open>NetworkSettings.Ports\<close>) and the parts of the
  runtime configuration it never reads (\<^verbatim>\<open>HostConfig\<close>, \<^verbatim>\<open>Mounts\<close>).
\<close>

record inspect_data =
  d_Image :: string
  d_Config_Image :: string
  d_Config :: jsobj
  d_HostConfig :: jsobj
  d_Ports :: jsval
  d_Mounts :: jsval

text \<open>What \<^verbatim>\<open>image.inspect()\<close> resolves to: only \<^verbatim>\<open>Id\<close> is read.\<close>

record image_data =
  i_Id :: string

text \<open>One event of the progress stream of a pull: \<^verbatim>\<open>line.id\<close> and \<^verbatim>\<open>line.status\<close>.\<close>

record progress =
  p_id :: "string option"
  p_status :: string

section \<open>The container engine\<close>

text \<open>
  Modelled from the spec: the Container Engine capability of section 6 (Docker behind
  \<^verbatim>\<open>dockerode\<close>), which is not code of this repository. Containers carry a unique,
  mutable name (section 3); the engine refuses a rename or a create onto a name that is
  taken (409), any operation on a container it does not know (404), and the removal of a
  running container (409). A call that fails leaves the engine unchanged.

  Failures are injected by \<open>script\<close>: the \<open>i\<close>-th call the engine receives fails with
  \<open>e\<close> when the \<open>i\<close>-th entry of the script is \<open>Some e\<close>; beyond the end of the script,
  and at \<open>None\<close>, the call takes its natural course. \<open>calls\<close> is the list of the calls
  the engine has received, oldest first, each with the error it answered (or \<open>None\<close>).
\<close>

datatype handle = ByName string | ById nat

datatype call =
    ListContainers
  | InspectContainer handle
  | PullImage string
  | FollowProgress string
  | InspectImage string
  | Rename handle string
  | CreateContainer jsobj
  | Stop handle
  | Start handle
  | Remove handle

record container =
  cid :: nat
  cname :: string
  running :: bool
  image_id :: string
  image_ref :: string
  config :: jsobj
  host_config :: jsobj
  ports :: jsval
  mounts :: jsval

record engine =
  containers :: "container list"
  images :: "(string \<times> string) list"
  registry :: "(string \<times> string) list"
  next_id :: nat
  script :: "error option list"
  calls :: "(call \<times> error option) list"

fun matches :: "handle \<Rightarrow> container \<Rightarrow> bool" where
  "matches (ByName n) c = (cname c = n)"
| "matches (ById i) c = (cid c = i)"

definition named :: "string \<Rightarrow> engine \<Rightarrow> container list" where
  "named n s = filter (\<lambda>c. cname c = n) (containers s)"

definition next_fault :: "engine \<Rightarrow> error option" where
  "next_fault s = (case script s of [] \<Rightarrow> None | f # _ \<Rightarrow> f)"

definition record_call :: "call \<Rightarrow> error option \<Rightarrow> engine \<Rightarrow> engine" where
  "record_call c r s = s\<lparr>script := tl (script s), calls := calls s @ [(c, r)]\<rparr>"

definition engine_op ::
  "call \<Rightarrow> (engine \<Rightarrow> error + 'a \<times> engine) \<Rightarrow> engine \<Rightarrow> (error + 'a) \<times> engine" where
  "engine_op c sem s =
     (case next_fault s of
        Some e \<Rightarrow> (Inl e, record_call c (Some e) s)
      | None \<Rightarrow>
          (case sem s of
             Inl e \<Rightarrow> (Inl e, record_call c (Some e) s)
           | Inr (a, t) \<Rightarrow> (Inr a, record_call c None t)))"

definition not_found :: error where
  "not_found = EngineError (Some 404)"

definition conflict :: error where
  "conflict = EngineError (Some 409)"

definition bad_request :: error where
  "bad_request = EngineError (Some 400)"

subsection \<open>Listing and inspecting\<close>

definition summary :: "container \<Rightarrow> jsobj" where
  "summary c =
     [(''Id'', JNum (cid c)),
      (''Names'', JArr [JStr (CHR ''/'' # cname c)]),
      (''Image'', JStr (image_ref c)),
      (''ImageID'', JStr (image_id c)),
      (''Labels'', get_field (config c) ''Labels''),
      (''State'', JStr ''running''),
      (''HostConfig'', JObj [(''NetworkMode'', get_field (host_config c) ''NetworkMode'')]),
      (''Mounts'', mounts c)]"

definition listContainers :: "engine \<Rightarrow> (error + jsobj list) \<times> engine" where
  "listContainers =
     engine_op ListContainers (\<lambda>s. Inr (map summary (filter running (containers s)), s))"

definition data_of :: "container \<Rightarrow> inspect_data" where
  "data_of c =
     \<lparr>d_Image = image_id c,
      d_Config_Image = image_ref c,
      d_Config = AList.update ''Image'' (JStr (image_ref c)) (config c),
      d_HostConfig = host_config c,
      d_Ports = ports c,
      d_Mounts = mounts c\<rparr>"

definition inspect :: "handle \<Rightarrow> engine \<Rightarrow> (error + inspect_data) \<times> engine" where
  "inspect h =
     engine_op (InspectContainer h)
       (\<lambda>s. case find (matches h) (containers s) of
               None \<Rightarrow> Inl not_found
             | Some c \<Rightarrow> Inr (data_of c, s))"

definition inspectImage :: "string \<Rightarrow> engine \<Rightarrow> (error + image_data) \<times> engine" where
  "inspectImage ref =
     engine_op (InspectImage ref)
       (\<lambda>s. case map_of (images s) ref of
               None \<Rightarrow> Inl not_found
             | Some i \<Rightarrow> Inr (\<lparr>i_Id = i\<rparr>, s))"

subsection \<open>Pulling\<close>

text \<open>
  \<^verbatim>\<open>docker.pull\<close> answers with an error or with a stream; \<^verbatim>\<open>followProgress\<close> reads the
  stream to its end, when the local cache holds what the registry serves.
\<close>

definition pull :: "string \<Rightarrow> engine \<Rightarrow> (error + string) \<times> engine" where
  "pull ref =
     engine_op (PullImage ref)
       (\<lambda>s. case map_of (registry s) ref of
               None \<Rightarrow> Inl not_found
             | Some i \<Rightarrow> Inr (ref, s))"

definition pull_output :: "string \<Rightarrow> string option \<Rightarrow> progress list" where
  "pull_output i cached =
     (if cached = Some i
      then [\<lparr>p_id = None, p_status = ''Status: Image is up to date''\<rparr>]
      else [\<lparr>p_id = Some (take 12 i), p_status = ''Pulling fs layer''\<rparr>,
            \<lparr>p_id = Some (take 12 i), p_status = ''Pull complete''\<rparr>,
            \<lparr>p_id = None, p_status = ''Status: Downloaded newer image''\<rparr>])"

definition followProgress :: "string \<Rightarrow> engine \<Rightarrow> (error + progress list) \<times> engine" where
  "followProgress ref =
     engine_op (FollowProgress ref)
       (\<lambda>s. case map_of (registry s) ref of
               None \<Rightarrow> Inl (EngineError None)
             | Some i \<Rightarrow>
                 Inr (pull_output i (map_of (images s) ref),
                      s\<lparr>images := AList.update ref i (images s)\<rparr>))"

subsection \<open>Changing containers\<close>

definition rename :: "handle \<Rightarrow> string \<Rightarrow> engine \<Rightarrow> (error + unit) \<times> engine" where
  "rename h new =
     engine_op (Rename h new)
       (\<lambda>s. if \<not> list_ex (matches h) (containers s) then Inl not_found
             else if list_ex (\<lambda>c. cname c = new) (containers s) then Inl conflict
             else Inr ((), s\<lparr>containers :=
                    map (\<lambda>c. if matches h c then c\<lparr>cname := new\<rparr> else c) (containers s)\<rparr>))"

definition stop :: "handle \<Rightarrow> engine \<Rightarrow> (error + unit) \<times> engine" where
  "stop h =
     engine_op (Stop h)
       (\<lambda>s. if \<not> list_ex (matches h) (containers s) then Inl not_found
             else Inr ((), s\<lparr>containers :=
                    map (\<lambda>c. if matches h c then c\<lparr>running := False\<rparr> else c) (containers s)\<rparr>))"

definition start :: "handle \<Rightarrow> engine \<Rightarrow> (error + unit) \<times> engine" where
  "start h =
     engine_op (Start h)
       (\<lambda>s. if \<not> list_ex (matches h) (containers s) then Inl not_found
             else Inr ((), s\<lparr>containers :=
                    map (\<lambda>c. if matches h c then c\<lparr>running := True\<rparr> else c) (containers s)\<rparr>))"

definition remove :: "handle \<Rightarrow> engine \<Rightarrow> (error + unit) \<times> engine" where
  "remove h =
     engine_op (Remove h)
       (\<lambda>s. if \<not> list_ex (matches h) (containers s) then Inl not_found
             else if list_ex (\<lambda>c. matches h c \<and> running c) (containers s) then Inl conflict
             else Inr ((), s\<lparr>containers := filter (\<lambda>c. \<not> matches h c) (containers s)\<rparr>))"

text \<open>
  \<^verbatim>\<open>docker.createContainer(payload)\<close>: the name and the image reference are read from
  the payload, the image must be in the local cache, and the handle of the new container
  is its identifier. The new container is not running. Of the payload the engine keeps
  the properties it understands as configuration, and \<^verbatim>\<open>HostConfig\<close>.
\<close>

definition config_keys :: "string list" where
  "config_keys =
     [''Hostname'', ''Domainname'', ''User'', ''Env'', ''Cmd'', ''Entrypoint'', ''Labels'',
      ''ExposedPorts'', ''Volumes'', ''WorkingDir'', ''Tty'', ''OpenStdin'', ''StopSignal'']"

definition created :: "nat \<Rightarrow> string \<Rightarrow> string \<Rightarrow> string \<Rightarrow> jsobj \<Rightarrow> container" where
  "created i n ref img payload =
     \<lparr>cid = i, cname = n, running = False, image_id = img, image_ref = ref,
      config = filter (\<lambda>kv. fst kv \<in> set config_keys) payload,
      host_config = as_obj (get_field payload ''HostConfig''),
      ports = get_field (as_obj (get_field payload ''HostConfig'')) ''PortBindings'',
      mounts = get_field (as_obj (get_field payload ''HostConfig'')) ''Mounts''\<rparr>"

definition createContainer :: "jsobj \<Rightarrow> engine \<Rightarrow> (error + nat) \<times> engine" where
  "createContainer payload =
     engine_op (CreateContainer payload)
       (\<lambda>s. case (get_field payload ''name'', get_field payload ''Image'') of
               (JStr n, JStr ref) \<Rightarrow>
                 (if list_ex (\<lambda>c. cname c = n) (containers s) then Inl conflict
                  else case map_of (images s) ref of
                         None \<Rightarrow> Inl not_found
                       | Some img \<Rightarrow>
                           Inr (next_id s,
                                s\<lparr>containers := containers s @ [created (next_id s) n ref img payload],
                                  next_id := Suc (next_id s)\<rparr>))
             | _ \<Rightarrow> Inl bad_request)"

section \<open>The program: \<^verbatim>\<open>image-updater.js\<close>\<close>

subsection \<open>\<^verbatim>\<open>containerManagement\<close> (lines 21 to 46)\<close>

text \<open>
  The \<^verbatim>\<open>switch\<close> on the method string; an unknown method only logs and makes no call.
  The value the promise resolves to is never used by a caller.
\<close>

definition containerManagement ::
  "string \<Rightarrow> string \<Rightarrow> string \<Rightarrow> engine \<Rightarrow> (error + unit) \<times> engine" where
  "containerManagement containerName method renameCtx s =
     (if method = ''start'' then start (ByName containerName) s
      else if method = ''stop'' then stop (ByName containerName) s
      else if method = ''rename'' then rename (ByName containerName) renameCtx s
      else if method = ''remove'' then remove (ByName containerName) s
      else (Inr (), s))"

subsection \<open>\<^verbatim>\<open>updateImage\<close> (lines 55 to 99)\<close>

text \<open>
  Lines 70 to 78: the list entry spread first, the inspected \<^verbatim>\<open>Config\<close> spread over it,
  then \<^verbatim>\<open>Image\<close> and \<^verbatim>\<open>name\<close>; afterwards \<^verbatim>\<open>HostConfig\<close> is assigned an object with the
  one property \<^verbatim>\<open>PortBindings\<close>.
\<close>

definition createContainerPayload :: "jsobj \<Rightarrow> inspect_data \<Rightarrow> string \<Rightarrow> jsobj" where
  "createContainerPayload containerInfo containerData targetContainerName =
     AList.update ''HostConfig'' (JObj [(''PortBindings'', d_Ports containerData)])
       (AList.update ''name'' (JStr targetContainerName)
         (AList.update ''Image'' (JStr (d_Config_Image containerData))
           (AList.merge containerInfo (d_Config containerData))))"

definition oldContainerName :: "string \<Rightarrow> string" where
  "oldContainerName targetContainerName = targetContainerName @ ''-old-temp''"

text \<open>
  The body of the \<^verbatim>\<open>try\<close> block, lines 64 to 93. Every call but one is awaited: its
  rejection leaves the block. \<^verbatim>\<open>newC.start()\<close> on line 85 is not awaited: the call is
  made on the handle that \<^verbatim>\<open>createContainer\<close> returned, and the promise is dropped, so
  the block goes on to the removal whatever the engine answers. The engine is taken to
  serve the start and the removal in the order in which they are made; they act on
  different containers.
\<close>

definition updateImage_try ::
  "jsobj \<Rightarrow> string \<Rightarrow> inspect_data \<Rightarrow> engine \<Rightarrow> (error + unit) \<times> engine" where
  "updateImage_try containerInfo targetContainerName containerData s =
     (case containerManagement targetContainerName ''rename''
             (oldContainerName targetContainerName) s of
        (Inl e, s1) \<Rightarrow> (Inl e, s1)
      | (Inr _, s1) \<Rightarrow>
          (case createContainer
                  (createContainerPayload containerInfo containerData targetContainerName) s1 of
             (Inl e, s2) \<Rightarrow> (Inl e, s2)
           | (Inr newC, s2) \<Rightarrow>
               (case containerManagement (oldContainerName targetContainerName) ''stop'' [] s2 of
                  (Inl e, s3) \<Rightarrow> (Inl e, s3)
                | (Inr _, s3) \<Rightarrow>
                    (case containerManagement (oldContainerName targetContainerName)
                            ''remove'' [] (snd (start (ById newC) s3)) of
                       (Inl e, s5) \<Rightarrow> (Inl e, s5)
                     | (Inr _, s5) \<Rightarrow> (Inr (), s5)))))"

text \<open>
  The inspect of line 57 stands before the \<^verbatim>\<open>try\<close>: its rejection is the rejection of
  \<^verbatim>\<open>updateImage\<close>. The \<^verbatim>\<open>catch\<close> block logs the error and awaits the rename back; when
  that rename succeeds \<^verbatim>\<open>updateImage\<close> resolves, when it fails \<^verbatim>\<open>updateImage\<close> rejects
  with the error of the rename.
\<close>

definition updateImage :: "jsobj \<Rightarrow> string \<Rightarrow> engine \<Rightarrow> (error + unit) \<times> engine" where
  "updateImage containerInfo targetContainerName s =
     (case inspect (ByName targetContainerName) s of
        (Inl e, s0) \<Rightarrow> (Inl e, s0)
      | (Inr containerData, s0) \<Rightarrow>
          (case updateImage_try containerInfo targetContainerName containerData s0 of
             (Inr u, s1) \<Rightarrow> (Inr u, s1)
           | (Inl createErr, s1) \<Rightarrow>
               containerManagement (oldContainerName targetContainerName) ''rename''
                 targetContainerName s1))"

subsection \<open>\<^verbatim>\<open>getRemoteImageId\<close> (lines 189 to 220)\<close>

text \<open>
  The promise resolves to \<^verbatim>\<open>null\<close> on the status codes 401 and 404 of the pull, rejects
  on any other error of the pull and on an error of the progress stream, and resolves
  to the \<^verbatim>\<open>id\<close> of the first line with a truthy \<^verbatim>\<open>id\<close> and the status
  \<^verbatim>\<open>Pull complete\<close>, or to \<^verbatim>\<open>null\<close> when there is no such line.
\<close>

definition truthy :: "string option \<Rightarrow> bool" where
  "truthy v = (case v of None \<Rightarrow> False | Some x \<Rightarrow> x \<noteq> [])"

definition getRemoteImageId :: "string \<Rightarrow> engine \<Rightarrow> (error + string option) \<times> engine" where
  "getRemoteImageId imageName s =
     (case pull imageName s of
        (Inl err, s1) \<Rightarrow>
          (if statusCode err = Some 401 then (Inr None, s1)
           else if statusCode err = Some 404 then (Inr None, s1)
           else (Inl err, s1))
      | (Inr stream, s1) \<Rightarrow>
          (case followProgress stream s1 of
             (Inl err, s2) \<Rightarrow> (Inl err, s2)
           | (Inr output, s2) \<Rightarrow>
               (case find (\<lambda>line. truthy (p_id line) \<and> p_status line = ''Pull complete'') output of
                  None \<Rightarrow> (Inr None, s2)
                | Some imageIdLine \<Rightarrow> (Inr (p_id imageIdLine), s2))))"

subsection \<open>\<^verbatim>\<open>checkIfImageNeedsUpdate\<close> (lines 143 to 175)\<close>

text \<open>
  The outer \<^verbatim>\<open>try\<close> covers the inspect of the container and the awaited
  \<^verbatim>\<open>getRemoteImageId\<close>: a rejection of either gives \<^verbatim>\<open>true\<close>. The inner \<^verbatim>\<open>try\<close> covers the
  inspect of the local image alone: any rejection there gives \<^verbatim>\<open>localImage = null\<close>.
  \<^verbatim>\<open>localImageId && containerImageId !== localImageId\<close> is the result.
\<close>

definition checkIfImageNeedsUpdate :: "string \<Rightarrow> engine \<Rightarrow> bool \<times> engine" where
  "checkIfImageNeedsUpdate containerName s =
     (case inspect (ByName containerName) s of
        (Inl err, s1) \<Rightarrow> (True, s1)
      | (Inr containerData, s1) \<Rightarrow>
          (case getRemoteImageId (d_Config_Image containerData) s1 of
             (Inl err, s2) \<Rightarrow> (True, s2)
           | (Inr _, s2) \<Rightarrow>
               (case inspectImage (d_Config_Image containerData) s2 of
                  (localImage, s3) \<Rightarrow>
                    (let localImageId =
                           (case localImage of Inl err \<Rightarrow> None | Inr img \<Rightarrow> Some (i_Id img))
                     in (truthy localImageId \<and> Some (d_Image containerData) \<noteq> localImageId,
                         s3)))))"

subsection \<open>\<^verbatim>\<open>checkForUpdates\<close> (lines 113 to 130)\<close>

text \<open>
  \<^verbatim>\<open>containerInfo.Names[0].replace(/^\//, '')\<close>: the first name without its leading
  slash; a \<^verbatim>\<open>TypeError\<close> when there is no first name to call \<^verbatim>\<open>replace\<close> on.
\<close>

fun strip_slash :: "string \<Rightarrow> string" where
  "strip_slash [] = []"
| "strip_slash (c # cs) = (if c = CHR ''/'' then cs else c # cs)"

definition first_name :: "jsobj \<Rightarrow> error + string" where
  "first_name containerInfo =
     (case get_field containerInfo ''Names'' of
        JArr (JStr n # _) \<Rightarrow> Inr (strip_slash n)
      | _ \<Rightarrow> Inl TypeError)"

text \<open>
  How the \<^verbatim>\<open>for\<close> loop is left: it runs to its end, an exception is thrown in its
  body, or \<^verbatim>\<open>return updateImage(...)\<close> hands the promise of the replacement to the
  caller of \<^verbatim>\<open>checkForUpdates\<close>.
\<close>

datatype loop_exit = Completed | Threw error | Returned "error + unit"

fun checkForUpdates_loop :: "jsobj list \<Rightarrow> engine \<Rightarrow> loop_exit \<times> engine" where
  "checkForUpdates_loop [] s = (Completed, s)"
| "checkForUpdates_loop (containerInfo # rest) s =
     (case first_name containerInfo of
        Inl e \<Rightarrow> (Threw e, s)
      | Inr containerName \<Rightarrow>
          (case checkIfImageNeedsUpdate containerName s of
             (isUpdated, s1) \<Rightarrow>
               (if isUpdated
                then (case updateImage containerInfo containerName s1 of
                        (r, s2) \<Rightarrow> (Returned r, s2))
                else checkForUpdates_loop rest s1)))"

text \<open>
  The \<^verbatim>\<open>catch\<close> of line 127 handles what is thrown or awaited inside the \<^verbatim>\<open>try\<close>: the
  rejection of \<^verbatim>\<open>listContainers\<close> and an exception of the loop body. The promise of
  \<^verbatim>\<open>updateImage\<close> is returned without \<^verbatim>\<open>await\<close>, so the promise of \<^verbatim>\<open>checkForUpdates\<close>
  settles as that promise does: its rejection is not handled by the \<^verbatim>\<open>catch\<close>.
\<close>

definition checkForUpdates :: "engine \<Rightarrow> (error + unit) \<times> engine" where
  "checkForUpdates s =
     (case listContainers s of
        (Inl error, s1) \<Rightarrow> (Inr (), s1)
      | (Inr containers', s1) \<Rightarrow>
          (case checkForUpdates_loop containers' s1 of
             (Completed, s2) \<Rightarrow> (Inr (), s2)
           | (Threw error, s2) \<Rightarrow> (Inr (), s2)
           | (Returned r, s2) \<Rightarrow> (r, s2)))"

section \<open>Reading the engine's state and its call log\<close>

text \<open>
  \<open>new_calls s s'\<close> are the calls made between the states \<open>s\<close> and \<open>s'\<close> of a run, each
  with its outcome; \<open>wf\<close> is the invariant of the engine: names and identifiers are
  unique, and identifiers in use lie below the next one to be given out.
\<close>

definition new_calls :: "engine \<Rightarrow> engine \<Rightarrow> (call \<times> error option) list" where
  "new_calls s s' = drop (length (calls s)) (calls s')"

definition wf :: "engine \<Rightarrow> bool" where
  "wf s = (distinct (map cname (containers s)) \<and> distinct (map cid (containers s))
           \<and> list_all (\<lambda>c. cid c < next_id s) (containers s))"

definition outcome :: "error + 'a \<Rightarrow> error option" where
  "outcome r = (case r of Inl e \<Rightarrow> Some e | Inr _ \<Rightarrow> None)"

text \<open>The result of the comparison on lines 161 to 170.\<close>

definition differs :: "string \<Rightarrow> error + image_data \<Rightarrow> bool" where
  "differs containerImageId localImage =
     (case localImage of Inl _ \<Rightarrow> False
      | Inr img \<Rightarrow> i_Id img \<noteq> [] \<and> containerImageId \<noteq> i_Id img)"

text \<open>The containers inspected by name, in the order of the calls.\<close>

fun inspected :: "(call \<times> error option) list \<Rightarrow> string list" where
  "inspected [] = []"
| "inspected ((InspectContainer (ByName n), _) # xs) = n # inspected xs"
| "inspected (_ # xs) = inspected xs"

text \<open>
  The words of the specification for a pass (section 4.3), without the replacement:
  drift detection evaluated for each name in listing order, one run after the other,
  with the answers in that order.
\<close>

fun detect_each :: "string list \<Rightarrow> engine \<Rightarrow> bool list \<times> engine" where
  "detect_each [] s = ([], s)"
| "detect_each (n # ns) s =
     (case checkIfImageNeedsUpdate n s of
        (b, s1) \<Rightarrow> (case detect_each ns s1 of (bs, s2) \<Rightarrow> (b # bs, s2)))"

section \<open>A concrete engine\<close>

text \<open>
  The scenario of section 8 of the specification: one running container \<open>web\<close>, created
  from \<^verbatim>\<open>app:latest\<close> when that was \<^verbatim>\<open>sha:AAA\<close>, with an environment, a label, a bind
  mount and a published port; the registry now serves \<^verbatim>\<open>sha:BBB\<close>. The local cache and
  the failures to inject are parameters.
\<close>

definition web :: container where
  "web =
     \<lparr>cid = 0, cname = ''web'', running = True, image_id = ''sha:AAA'',
      image_ref = ''app:latest'',
      config = [(''Env'', JArr [JStr ''MODE=prod'']),
                (''Labels'', JObj [(''tier'', JStr ''front'')])],
      host_config =
        [(''Binds'', JArr [JStr ''/srv/data:/data'']),
         (''PortBindings'', JObj [(''80/tcp'', JArr [JObj [(''HostPort'', JStr ''8080'')]])])],
      ports = JObj [(''80/tcp'',
                JArr [JObj [(''HostIp'', JStr ''0.0.0.0''), (''HostPort'', JStr ''8080'')]])],
      mounts = JArr [JObj [(''Source'', JStr ''/srv/data''), (''Destination'', JStr ''/data'')]]\<rparr>"

definition host :: "(string \<times> string) list \<Rightarrow> error option list \<Rightarrow> engine" where
  "host cache faults =
     \<lparr>containers = [web], images = cache, registry = [(''app:latest'', ''sha:BBB'')],
      next_id = 1, script = faults, calls = []\<rparr>"

text \<open>The cache after a pull: it holds what the registry serves.\<close>

definition pulled :: "(string \<times> string) list" where
  "pulled = [(''app:latest'', ''sha:BBB'')]"

text \<open>The cache before the pull: it holds the image the container was created from.\<close>

definition stale :: "(string \<times> string) list" where
  "stale = [(''app:latest'', ''sha:AAA'')]"

text \<open>An engine failure that is neither 401 nor 404.\<close>

definition boom :: error where
  "boom = EngineError (Some 500)"

text \<open>
  \<^verbatim>\<open>updateImage\<close> on \<open>web\<close>, after the pull, with failures injected into its own calls:
  the inspect is call 0, the rename 1, the create 2, the stop 3, the start 4 and the
  removal 5.
\<close>

definition replaced :: "error option list \<Rightarrow> (error + unit) \<times> engine" where
  "replaced faults = updateImage (summary web) ''web'' (host pulled faults)"

text \<open>A second running container, listed after \<open>web\<close>, whose image is outdated too.\<close>

definition db :: container where
  "db =
     \<lparr>cid = 1, cname = ''db'', running = True, image_id = ''sha:CCC'',
      image_ref = ''store:1'', config = [], host_config = [], ports = JObj [],
      mounts = JArr []\<rparr>"

text \<open>A third running container, listed first, whose image is up to date.\<close>

definition proxy :: container where
  "proxy =
     \<lparr>cid = 2, cname = ''proxy'', running = True, image_id = ''sha:EEE'',
      image_ref = ''edge:2'', config = [], host_config = [], ports = JObj [],
      mounts = JArr []\<rparr>"

definition yard :: engine where
  "yard =
     \<lparr>containers = [proxy, web, db],
      images = [(''edge:2'', ''sha:EEE''), (''app:latest'', ''sha:AAA''),
                (''store:1'', ''sha:CCC'')],
      registry = [(''edge:2'', ''sha:EEE''), (''app:latest'', ''sha:BBB''),
                  (''store:1'', ''sha:DDD'')],
      next_id = 3, script = [], calls = []\<rparr>"

text \<open>The containers of an engine at a glance.\<close>

definition brief :: "engine \<Rightarrow> (nat \<times> string \<times> bool \<times> string) list" where
  "brief s = map (\<lambda>c. (cid c, cname c, running c, image_id c)) (containers s)"

section \<open>Facts about the engine's operations\<close>

lemma record_call_fields [simp]:
  "containers (record_call c r s) = containers s"
  "images (record_call c r s) = images s"
  "registry (record_call c r s) = registry s"
  "next_id (record_call c r s) = next_id s"
  "script (record_call c r s) = tl (script s)"
  "calls (record_call c r s) = calls s @ [(c, r)]"
  by (simp_all add: record_call_def)

lemma engine_op_Inl:
  assumes "engine_op c sem s = (Inl e, s')"
  shows "s' = record_call c (Some e) s"
  using assms by (auto simp: engine_op_def split: option.splits sum.splits)

lemma engine_op_Inr:
  assumes "engine_op c sem s = (Inr a, s')"
  obtains t where "sem s = Inr (a, t)" and "s' = record_call c None t"
  using assms by (auto simp: engine_op_def split: option.splits sum.splits)

lemma new_calls_append [simp]: "calls s' = calls s @ xs \<Longrightarrow> new_calls s s' = xs"
  by (simp add: new_calls_def)

lemma inspect_Inl:
  "inspect h s = (Inl e, s') \<Longrightarrow>
     containers s' = containers s \<and> images s' = images s \<and> next_id s' = next_id s
     \<and> registry s' = registry s \<and> calls s' = calls s @ [(InspectContainer h, Some e)]"
  unfolding inspect_def by (drule engine_op_Inl) simp

lemma inspect_Inr:
  "inspect h s = (Inr d, s') \<Longrightarrow>
     (\<exists>c. find (matches h) (containers s) = Some c \<and> d = data_of c)
     \<and> containers s' = containers s \<and> images s' = images s \<and> next_id s' = next_id s
     \<and> registry s' = registry s \<and> calls s' = calls s @ [(InspectContainer h, None)]"
  unfolding inspect_def by (erule engine_op_Inr) (auto split: option.splits)

lemma rename_Inl:
  "rename h n s = (Inl e, s') \<Longrightarrow>
     containers s' = containers s \<and> images s' = images s \<and> next_id s' = next_id s
     \<and> registry s' = registry s \<and> calls s' = calls s @ [(Rename h n, Some e)]"
  unfolding rename_def by (drule engine_op_Inl) simp

lemma rename_Inr:
  "rename h n s = (Inr u, s') \<Longrightarrow>
     list_ex (matches h) (containers s) \<and> \<not> list_ex (\<lambda>c. cname c = n) (containers s)
     \<and> containers s' = map (\<lambda>c. if matches h c then c\<lparr>cname := n\<rparr> else c) (containers s)
     \<and> images s' = images s \<and> next_id s' = next_id s
     \<and> registry s' = registry s \<and> calls s' = calls s @ [(Rename h n, None)]"
  unfolding rename_def by (erule engine_op_Inr) (auto split: if_splits)


lemma stop_Inl:
  "stop h s = (Inl e, s') \<Longrightarrow>
     containers s' = containers s \<and> images s' = images s \<and> next_id s' = next_id s
     \<and> registry s' = registry s \<and> calls s' = calls s @ [(Stop h, Some e)]"
  unfolding stop_def by (drule engine_op_Inl) simp

lemma stop_Inr:
  "stop h s = (Inr u, s') \<Longrightarrow>
     containers s' = map (\<lambda>c. if matches h c then c\<lparr>running := False\<rparr> else c) (containers s)
     \<and> images s' = images s \<and> next_id s' = next_id s
     \<and> registry s' = registry s \<and> calls s' = calls s @ [(Stop h, None)]"
  unfolding stop_def by (erule engine_op_Inr) (auto split: if_splits)

lemma start_Inl:
  "start h s = (Inl e, s') \<Longrightarrow>
     containers s' = containers s \<and> images s' = images s \<and> next_id s' = next_id s
     \<and> registry s' = registry s \<and> calls s' = calls s @ [(Start h, Some e)]"
  unfolding start_def by (drule engine_op_Inl) simp

lemma start_Inr:
  "start h s = (Inr u, s') \<Longrightarrow>
     containers s' = map (\<lambda>c. if matches h c then c\<lparr>running := True\<rparr> else c) (containers s)
     \<and> images s' = images s \<and> next_id s' = next_id s
     \<and> registry s' = registry s \<and> calls s' = calls s @ [(Start h, None)]"
  unfolding start_def by (erule engine_op_Inr) (auto split: if_splits)

lemma remove_Inl:
  "remove h s = (Inl e, s') \<Longrightarrow>
     containers s' = containers s \<and> images s' = images s \<and> next_id s' = next_id s
     \<and> registry s' = registry s \<and> calls s' = calls s @ [(Remove h, Some e)]"
  unfolding remove_def by (drule engine_op_Inl) simp

lemma remove_Inr:
  "remove h s = (Inr u, s') \<Longrightarrow>
     containers s' = filter (\<lambda>c. \<not> matches h c) (containers s)
     \<and> images s' = images s \<and> next_id s' = next_id s
     \<and> registry s' = registry s \<and> calls s' = calls s @ [(Remove h, None)]"
  unfolding remove_def by (erule engine_op_Inr) (auto split: if_splits)

lemma createContainer_Inl:
  "createContainer p s = (Inl e, s') \<Longrightarrow>
     containers s' = containers s \<and> images s' = images s \<and> next_id s' = next_id s
     \<and> registry s' = registry s \<and> calls s' = calls s @ [(CreateContainer p, Some e)]"
  unfolding createContainer_def by (drule engine_op_Inl) simp

lemma createContainer_Inr:
  "createContainer p s = (Inr i, s') \<Longrightarrow>
     (\<exists>n ref img. get_field p ''name'' = JStr n \<and> get_field p ''Image'' = JStr ref
        \<and> map_of (images s) ref = Some img
        \<and> \<not> list_ex (\<lambda>c. cname c = n) (containers s)
        \<and> containers s' = containers s @ [created (next_id s) n ref img p])
     \<and> i = next_id s \<and> images s' = images s \<and> next_id s' = Suc (next_id s)
     \<and> registry s' = registry s \<and> calls s' = calls s @ [(CreateContainer p, None)]"
  unfolding createContainer_def
  by (erule engine_op_Inr) (auto split: if_splits option.splits jsval.splits)

lemma payload_name [simp]:
  "get_field (createContainerPayload i d t) ''name'' = JStr t"
  by (simp add: get_field_def createContainerPayload_def update_conv')

lemma payload_Image [simp]:
  "get_field (createContainerPayload i d t) ''Image'' = JStr (d_Config_Image d)"
  by (simp add: get_field_def createContainerPayload_def update_conv')

lemma payload_HostConfig [simp]:
  "get_field (createContainerPayload i d t) ''HostConfig'' = JObj [(''PortBindings'', d_Ports d)]"
  by (simp add: get_field_def createContainerPayload_def update_conv')

lemma containerManagement_simps [simp]:
  "containerManagement n ''rename'' x = rename (ByName n) x"
  "containerManagement n ''stop'' x = stop (ByName n)"
  "containerManagement n ''start'' x = start (ByName n)"
  "containerManagement n ''remove'' x = remove (ByName n)"
  by (rule ext, simp add: containerManagement_def)+

lemma updateImage_try_cases:
  assumes "updateImage_try info t d s0 = (y, s')"
  obtains
    (rename_failed) e where
      "rename (ByName t) (oldContainerName t) s0 = (Inl e, s')" "y = Inl e"
  | (create_failed) u s1 e where
      "rename (ByName t) (oldContainerName t) s0 = (Inr u, s1)"
      "createContainer (createContainerPayload info d t) s1 = (Inl e, s')" "y = Inl e"
  | (stop_failed) u s1 newC s2 e where
      "rename (ByName t) (oldContainerName t) s0 = (Inr u, s1)"
      "createContainer (createContainerPayload info d t) s1 = (Inr newC, s2)"
      "stop (ByName (oldContainerName t)) s2 = (Inl e, s')" "y = Inl e"
  | (remove_failed) u s1 newC s2 v s3 x s4 e where
      "rename (ByName t) (oldContainerName t) s0 = (Inr u, s1)"
      "createContainer (createContainerPayload info d t) s1 = (Inr newC, s2)"
      "stop (ByName (oldContainerName t)) s2 = (Inr v, s3)"
      "start (ById newC) s3 = (x, s4)"
      "remove (ByName (oldContainerName t)) s4 = (Inl e, s')" "y = Inl e"
  | (completed) u s1 newC s2 v s3 x s4 w where
      "rename (ByName t) (oldContainerName t) s0 = (Inr u, s1)"
      "createContainer (createContainerPayload info d t) s1 = (Inr newC, s2)"
      "stop (ByName (oldContainerName t)) s2 = (Inr v, s3)"
      "start (ById newC) s3 = (x, s4)"
      "remove (ByName (oldContainerName t)) s4 = (Inr w, s')" "y = Inr ()"
proof -
  obtain a s1 where 1: "rename (ByName t) (oldContainerName t) s0 = (a, s1)"
    by (cases "rename (ByName t) (oldContainerName t) s0")
  show thesis
  proof (cases a)
    case (Inl e)
    with assms 1 show thesis
      by (intro rename_failed [of e]) (simp_all add: updateImage_try_def)
  next
    case a: (Inr u)
    obtain b s2 where 2: "createContainer (createContainerPayload info d t) s1 = (b, s2)"
      by (cases "createContainer (createContainerPayload info d t) s1")
    show thesis
    proof (cases b)
      case (Inl e)
      with assms 1 2 a show thesis
        by (intro create_failed [of u s1 e]) (simp_all add: updateImage_try_def)
    next
      case b: (Inr newC)
      obtain c s3 where 3: "stop (ByName (oldContainerName t)) s2 = (c, s3)"
        by (cases "stop (ByName (oldContainerName t)) s2")
      show thesis
      proof (cases c)
        case (Inl e)
        with assms 1 2 3 a b show thesis
          by (intro stop_failed [of u s1 newC s2 e]) (simp_all add: updateImage_try_def)
      next
        case c: (Inr v)
        obtain x s4 where 4: "start (ById newC) s3 = (x, s4)"
          by (cases "start (ById newC) s3")
        obtain f s5 where 5: "remove (ByName (oldContainerName t)) s4 = (f, s5)"
          by (cases "remove (ByName (oldContainerName t)) s4")
        show thesis
        proof (cases f)
          case (Inl e)
          with assms 1 2 3 4 5 a b c show thesis
            by (intro remove_failed [of u s1 newC s2 v s3 x s4 e])
               (simp_all add: updateImage_try_def)
        next
          case (Inr w)
          with assms 1 2 3 4 5 a b c show thesis
            by (intro completed [of u s1 newC s2 v s3 x s4 w])
               (simp_all add: updateImage_try_def)
        qed
      qed
    qed
  qed
qed

lemma updateImage_cases:
  assumes "updateImage info t s = (r, s')"
  obtains
    (inspect_failed) e where "inspect (ByName t) s = (Inl e, s')" "r = Inl e"
  | (rolled_back) d s0 e s1 where
      "inspect (ByName t) s = (Inr d, s0)"
      "updateImage_try info t d s0 = (Inl e, s1)"
      "rename (ByName (oldContainerName t)) t s1 = (r, s')"
  | (completed) d s0 where
      "inspect (ByName t) s = (Inr d, s0)"
      "updateImage_try info t d s0 = (Inr (), s')" "r = Inr ()"
proof -
  obtain a s0 where 1: "inspect (ByName t) s = (a, s0)"
    by (cases "inspect (ByName t) s")
  show thesis
  proof (cases a)
    case (Inl e)
    with assms 1 show thesis
      by (intro inspect_failed [of e]) (simp_all add: updateImage_def)
  next
    case a: (Inr d)
    obtain y s1 where 2: "updateImage_try info t d s0 = (y, s1)"
      by (cases "updateImage_try info t d s0")
    show thesis
    proof (cases y)
      case (Inl e)
      with assms 1 2 a show thesis
        by (intro rolled_back [of d s0 e s1]) (simp_all add: updateImage_def)
    next
      case (Inr w)
      with assms 1 2 a show thesis
        by (intro completed [of d s0]) (simp_all add: updateImage_def)
    qed
  qed
qed


lemma oldContainerName_neq [simp]:
  "oldContainerName t \<noteq> t" "t \<noteq> oldContainerName t"
  by (simp_all add: oldContainerName_def)

lemma find_SomeD: "find P xs = Some x \<Longrightarrow> x \<in> set xs \<and> P x"
  by (induction xs) (auto split: if_splits)

lemma distinct_filter_single:
  "distinct (map f xs) \<Longrightarrow> x \<in> set xs \<Longrightarrow> filter (\<lambda>c. f c = f x) xs = [x]"
proof (induction xs)
  case Nil
  then show ?case by simp
next
  case (Cons a xs)
  show ?case
  proof (cases "a = x")
    case True
    from Cons.prems True have "f x \<notin> f ` set xs" by simp
    then have "filter (\<lambda>c. f c = f x) xs = []"
      by (auto simp: filter_empty_conv image_iff)
    with True show ?thesis by simp
  next
    case False
    with Cons.prems have "x \<in> set xs" "f a \<noteq> f x" by auto
    with Cons show ?thesis by simp
  qed
qed

lemma list_ex_name: "list_ex (\<lambda>c. cname c = n) cs \<longleftrightarrow> n \<in> cname ` set cs"
  by (auto simp: list_ex_iff)

lemma outcome_simps [simp]: "outcome (Inl e) = Some e" "outcome (Inr a) = None"
  by (simp_all add: outcome_def)

lemma rename_calls: "rename h n s = (x, s') \<Longrightarrow> calls s' = calls s @ [(Rename h n, outcome x)]"
  using rename_Inl [of h n s _ s'] rename_Inr [of h n s _ s'] by (cases x) auto

lemma start_calls: "start h s = (x, s') \<Longrightarrow> calls s' = calls s @ [(Start h, outcome x)]"
  using start_Inl [of h s _ s'] start_Inr [of h s _ s'] by (cases x) auto

lemma updateImage_paths:
  assumes "updateImage info t s = (r, s')"
  obtains
    (inspect_failed) e where
      "inspect (ByName t) s = (Inl e, s')" "r = Inl e"
      "calls s' = calls s @ [(InspectContainer (ByName t), Some e)]"
  | (rename_failed) d s0 e s1 where
      "inspect (ByName t) s = (Inr d, s0)"
      "rename (ByName t) (oldContainerName t) s0 = (Inl e, s1)"
      "rename (ByName (oldContainerName t)) t s1 = (r, s')"
      "calls s' = calls s @
         [(InspectContainer (ByName t), None),
          (Rename (ByName t) (oldContainerName t), Some e),
          (Rename (ByName (oldContainerName t)) t, outcome r)]"
  | (create_failed) d s0 u s1 e s2 where
      "inspect (ByName t) s = (Inr d, s0)"
      "rename (ByName t) (oldContainerName t) s0 = (Inr u, s1)"
      "createContainer (createContainerPayload info d t) s1 = (Inl e, s2)"
      "rename (ByName (oldContainerName t)) t s2 = (r, s')"
      "calls s' = calls s @
         [(InspectContainer (ByName t), None),
          (Rename (ByName t) (oldContainerName t), None),
          (CreateContainer (createContainerPayload info d t), Some e),
          (Rename (ByName (oldContainerName t)) t, outcome r)]"
  | (stop_failed) d s0 u s1 newC s2 e s3 where
      "inspect (ByName t) s = (Inr d, s0)"
      "rename (ByName t) (oldContainerName t) s0 = (Inr u, s1)"
      "createContainer (createContainerPayload info d t) s1 = (Inr newC, s2)"
      "stop (ByName (oldContainerName t)) s2 = (Inl e, s3)"
      "rename (ByName (oldContainerName t)) t s3 = (r, s')"
      "calls s' = calls s @
         [(InspectContainer (ByName t), None),
          (Rename (ByName t) (oldContainerName t), None),
          (CreateContainer (createContainerPayload info d t), None),
          (Stop (ByName (oldContainerName t)), Some e),
          (Rename (ByName (oldContainerName t)) t, outcome r)]"
  | (remove_failed) d s0 u s1 newC s2 v s3 x s4 e s5 where
      "inspect (ByName t) s = (Inr d, s0)"
      "rename (ByName t) (oldContainerName t) s0 = (Inr u, s1)"
      "createContainer (createContainerPayload info d t) s1 = (Inr newC, s2)"
      "stop (ByName (oldContainerName t)) s2 = (Inr v, s3)"
      "start (ById newC) s3 = (x, s4)"
      "remove (ByName (oldContainerName t)) s4 = (Inl e, s5)"
      "rename (ByName (oldContainerName t)) t s5 = (r, s')"
      "calls s' = calls s @
         [(InspectContainer (ByName t), None),
          (Rename (ByName t) (oldContainerName t), None),
          (CreateContainer (createContainerPayload info d t), None),
          (Stop (ByName (oldContainerName t)), None),
          (Start (ById newC), outcome x),
          (Remove (ByName (oldContainerName t)), Some e),
          (Rename (ByName (oldContainerName t)) t, outcome r)]"
  | (completed) d s0 u s1 newC s2 v s3 x s4 w where
      "inspect (ByName t) s = (Inr d, s0)"
      "rename (ByName t) (oldContainerName t) s0 = (Inr u, s1)"
      "createContainer (createContainerPayload info d t) s1 = (Inr newC, s2)"
      "stop (ByName (oldContainerName t)) s2 = (Inr v, s3)"
      "start (ById newC) s3 = (x, s4)"
      "remove (ByName (oldContainerName t)) s4 = (Inr w, s')"
      "r = Inr ()"
      "calls s' = calls s @
         [(InspectContainer (ByName t), None),
          (Rename (ByName t) (oldContainerName t), None),
          (CreateContainer (createContainerPayload info d t), None),
          (Stop (ByName (oldContainerName t)), None),
          (Start (ById newC), outcome x),
          (Remove (ByName (oldContainerName t)), None)]"
  using assms
proof (cases rule: updateImage_cases)
  case (inspect_failed e)
  with inspect_Inl [OF inspect_failed(1)] that(1) show ?thesis by simp
next
  case rb: (rolled_back d s0 e s1)
  note i = inspect_Inr [OF rb(1)]
  note undo = rename_calls [OF rb(3)]
  from rb(2) show ?thesis
  proof (cases rule: updateImage_try_cases)
    case (rename_failed e')
    with rename_Inl [OF rename_failed(1)] i undo rb that(2) show ?thesis by simp
  next
    case (create_failed u s1' e')
    with rename_Inr [OF create_failed(1)] createContainer_Inl [OF create_failed(2)]
      i undo rb that(3) [of d s0 u s1' e' s1]
    show ?thesis by simp
  next
    case (stop_failed u s1' newC s2 e')
    with rename_Inr [OF stop_failed(1)] createContainer_Inr [OF stop_failed(2)]
      stop_Inl [OF stop_failed(3)] i undo rb that(4) [of d s0 u s1' newC s2 e' s1]
    show ?thesis by simp
  next
    case (remove_failed u s1' newC s2 v s3 x s4 e')
    with rename_Inr [OF remove_failed(1)] createContainer_Inr [OF remove_failed(2)]
      stop_Inr [OF remove_failed(3)] start_calls [OF remove_failed(4)]
      remove_Inl [OF remove_failed(5)] i undo rb
      that(5) [of d s0 u s1' newC s2 v s3 x s4 e' s1]
    show ?thesis by simp
  qed simp
next
  case outer: (completed d s0)
  note i = inspect_Inr [OF outer(1)]
  from outer(2) show ?thesis
  proof (cases rule: updateImage_try_cases)
    case (completed u s1 newC s2 v s3 x s4 w)
    with rename_Inr [OF completed(1)] createContainer_Inr [OF completed(2)]
      stop_Inr [OF completed(3)] start_calls [OF completed(4)]
      remove_Inr [OF completed(5)] i outer
      that(6) [of d s0 u s1 newC s2 v s3 x s4 w]
    show ?thesis by simp
  qed simp_all
qed

lemma cname_update_same: "cname c = t \<Longrightarrow> c\<lparr>cname := t\<rparr> = c"
  by auto

lemma rename_there_and_back:
  assumes "\<not> list_ex (\<lambda>c. cname c = old) cs"
  shows "map ((\<lambda>c. if cname c = old then c\<lparr>cname := t\<rparr> else c)
              \<circ> (\<lambda>c. if cname c = t then c\<lparr>cname := old\<rparr> else c)) cs = cs"
  using assms by (induction cs) (auto simp: cname_update_same)

lemma named_single:
  assumes "wf s" and "find (matches (ByName t)) (containers s) = Some old"
  shows "named t s = [old]"
proof -
  from find_SomeD [OF assms(2)] have "old \<in> set (containers s)" "cname old = t"
    by simp_all
  with assms(1) show ?thesis
    using distinct_filter_single [of cname "containers s" old] by (simp add: wf_def named_def)
qed

lemma pull_Inl:
  "pull ref s = (Inl e, s') \<Longrightarrow>
     containers s' = containers s \<and> images s' = images s \<and> next_id s' = next_id s
     \<and> registry s' = registry s \<and> calls s' = calls s @ [(PullImage ref, Some e)]"
  unfolding pull_def by (drule engine_op_Inl) simp

lemma pull_Inr:
  "pull ref s = (Inr x, s') \<Longrightarrow>
     x = ref \<and> containers s' = containers s \<and> images s' = images s \<and> next_id s' = next_id s
     \<and> registry s' = registry s \<and> calls s' = calls s @ [(PullImage ref, None)]"
  unfolding pull_def by (erule engine_op_Inr) (auto split: option.splits)

lemma followProgress_Inl:
  "followProgress ref s = (Inl e, s') \<Longrightarrow>
     containers s' = containers s \<and> images s' = images s \<and> next_id s' = next_id s
     \<and> registry s' = registry s \<and> calls s' = calls s @ [(FollowProgress ref, Some e)]"
  unfolding followProgress_def by (drule engine_op_Inl) simp

lemma followProgress_Inr:
  "followProgress ref s = (Inr x, s') \<Longrightarrow>
     (\<exists>i. map_of (registry s) ref = Some i \<and> images s' = AList.update ref i (images s))
     \<and> containers s' = containers s \<and> next_id s' = next_id s
     \<and> registry s' = registry s \<and> calls s' = calls s @ [(FollowProgress ref, None)]"
  unfolding followProgress_def by (erule engine_op_Inr) (auto split: option.splits)

lemma inspectImage_Inl:
  "inspectImage ref s = (Inl e, s') \<Longrightarrow>
     containers s' = containers s \<and> images s' = images s \<and> next_id s' = next_id s
     \<and> registry s' = registry s \<and> calls s' = calls s @ [(InspectImage ref, Some e)]"
  unfolding inspectImage_def by (drule engine_op_Inl) simp

lemma inspectImage_Inr:
  "inspectImage ref s = (Inr x, s') \<Longrightarrow>
     map_of (images s) ref = Some (i_Id x)
     \<and> containers s' = containers s \<and> images s' = images s \<and> next_id s' = next_id s
     \<and> registry s' = registry s \<and> calls s' = calls s @ [(InspectImage ref, None)]"
  unfolding inspectImage_def by (erule engine_op_Inr) (auto split: option.splits)

lemma inspectImage_calls:
  "inspectImage ref s = (x, s') \<Longrightarrow>
     containers s' = containers s \<and> images s' = images s \<and> next_id s' = next_id s
     \<and> registry s' = registry s \<and> calls s' = calls s @ [(InspectImage ref, outcome x)]"
  using inspectImage_Inl [of ref s _ s'] inspectImage_Inr [of ref s _ s'] by (cases x) auto

lemma getRemoteImageId_paths:
  assumes "getRemoteImageId ref s = (x, s')"
  obtains
    (soft) e where "pull ref s = (Inl e, s')"
      "statusCode e = Some 401 \<or> statusCode e = Some 404" "x = Inr None"
  | (hard) e where "pull ref s = (Inl e, s')"
      "statusCode e \<noteq> Some 401" "statusCode e \<noteq> Some 404" "x = Inl e"
  | (stream_failed) st s1 e where "pull ref s = (Inr st, s1)"
      "followProgress ref s1 = (Inl e, s')" "x = Inl e"
  | (pulled) st s1 out v where "pull ref s = (Inr st, s1)"
      "followProgress ref s1 = (Inr out, s')" "x = Inr v"
proof -
  obtain a s1 where 1: "pull ref s = (a, s1)" by (cases "pull ref s")
  show thesis
  proof (cases a)
    case (Inl e)
    with assms 1 soft [of e] hard [of e] show thesis
      by (auto simp: getRemoteImageId_def split: if_splits)
  next
    case a: (Inr st)
    with pull_Inr [of ref s st s1] 1 have st: "st = ref" by simp
    obtain b s2 where 2: "followProgress ref s1 = (b, s2)" by (cases "followProgress ref s1")
    show thesis
    proof (cases b)
      case (Inl e)
      with assms 1 2 a st stream_failed [of st s1 e] show thesis
        by (simp add: getRemoteImageId_def)
    next
      case (Inr out)
      with assms 1 2 a st pulled [of st s1 out] show thesis
        by (auto simp: getRemoteImageId_def split: option.splits)
    qed
  qed
qed

lemma checkIfImageNeedsUpdate_paths:
  assumes "checkIfImageNeedsUpdate n s = (b, s')"
  obtains
    (inspect_failed) e where
      "inspect (ByName n) s = (Inl e, s')" "b"
      "calls s' = calls s @ [(InspectContainer (ByName n), Some e)]"
  | (pull_failed) d s1 e where
      "inspect (ByName n) s = (Inr d, s1)"
      "pull (d_Config_Image d) s1 = (Inl e, s')"
      "statusCode e \<noteq> Some 401" "statusCode e \<noteq> Some 404" "b"
      "calls s' = calls s @
         [(InspectContainer (ByName n), None), (PullImage (d_Config_Image d), Some e)]"
  | (stream_failed) d s1 st s2 e where
      "inspect (ByName n) s = (Inr d, s1)"
      "pull (d_Config_Image d) s1 = (Inr st, s2)"
      "followProgress (d_Config_Image d) s2 = (Inl e, s')" "b"
      "calls s' = calls s @
         [(InspectContainer (ByName n), None), (PullImage (d_Config_Image d), None),
          (FollowProgress (d_Config_Image d), Some e)]"
  | (local_only) d s1 e s2 localImage where
      "inspect (ByName n) s = (Inr d, s1)"
      "pull (d_Config_Image d) s1 = (Inl e, s2)"
      "statusCode e = Some 401 \<or> statusCode e = Some 404"
      "inspectImage (d_Config_Image d) s2 = (localImage, s')"
      "b = differs (d_Image d) localImage"
      "calls s' = calls s @
         [(InspectContainer (ByName n), None), (PullImage (d_Config_Image d), Some e),
          (InspectImage (d_Config_Image d), outcome localImage)]"
  | (refreshed) d s1 st s2 out s3 localImage where
      "inspect (ByName n) s = (Inr d, s1)"
      "pull (d_Config_Image d) s1 = (Inr st, s2)"
      "followProgress (d_Config_Image d) s2 = (Inr out, s3)"
      "inspectImage (d_Config_Image d) s3 = (localImage, s')"
      "b = differs (d_Image d) localImage"
      "calls s' = calls s @
         [(InspectContainer (ByName n), None), (PullImage (d_Config_Image d), None),
          (FollowProgress (d_Config_Image d), None),
          (InspectImage (d_Config_Image d), outcome localImage)]"
proof -
  obtain a s1 where 1: "inspect (ByName n) s = (a, s1)" by (cases "inspect (ByName n) s")
  show thesis
  proof (cases a)
    case (Inl e)
    with assms 1 inspect_Inl [of "ByName n" s e s1] inspect_failed [of e] show thesis
      by (simp add: checkIfImageNeedsUpdate_def)
  next
    case a: (Inr d)
    note i = inspect_Inr [OF 1 [unfolded a]]
    obtain x s2 where 2: "getRemoteImageId (d_Config_Image d) s1 = (x, s2)"
      by (cases "getRemoteImageId (d_Config_Image d) s1")
    obtain localImage s3 where 3: "inspectImage (d_Config_Image d) s2 = (localImage, s3)"
      by (cases "inspectImage (d_Config_Image d) s2")
    note li = inspectImage_calls [OF 3]
    have cmp: "b = differs (d_Image d) localImage" "s' = s3" if "x = Inr v" for v
      using assms 1 2 3 a that
      by (auto simp: checkIfImageNeedsUpdate_def differs_def truthy_def split: sum.splits)
    have rej: "b" "s' = s2" if "x = Inl e" for e
      using assms 1 2 a that by (auto simp: checkIfImageNeedsUpdate_def)
    from 2 show thesis
    proof (cases rule: getRemoteImageId_paths)
      case (soft e)
      with cmp [of None] 1 3 a i li pull_Inl [OF soft(1)]
        local_only [of d s1 e s2 localImage]
      show thesis by simp
    next
      case (hard e)
      with rej [of e] 1 a i pull_Inl [OF hard(1)] pull_failed [of d s1 e]
      show thesis by simp
    next
      case (stream_failed st s1' e)
      with rej [of e] 1 a i pull_Inr [OF stream_failed(1)]
        followProgress_Inl [OF stream_failed(2)] that(3) [of d s1 st s1' e]
      show thesis by simp
    next
      case (pulled st s1' out v)
      with cmp [of v] 1 3 a i li pull_Inr [OF pulled(1)]
        followProgress_Inr [OF pulled(2)] refreshed [of d s1 st s1' out s2 localImage]
      show thesis by simp
    qed
  qed
qed

lemma inspected_append [simp]: "inspected (xs @ ys) = inspected xs @ inspected ys"
  by (induction xs rule: inspected.induct) simp_all

lemma detection_effect:
  assumes "checkIfImageNeedsUpdate n s = (b, s')"
  shows "containers s' = containers s \<and> next_id s' = next_id s
         \<and> (\<exists>xs. calls s' = calls s @ xs \<and> inspected xs = [n])"
  using assms
proof (cases rule: checkIfImageNeedsUpdate_paths)
  case (inspect_failed e)
  with inspect_Inl [OF inspect_failed(1)] show ?thesis by simp
next
  case (pull_failed d s1 e)
  with inspect_Inr [OF pull_failed(1)] pull_Inl [OF pull_failed(2)] show ?thesis by simp
next
  case (stream_failed d s1 st s2 e)
  with inspect_Inr [OF stream_failed(1)] pull_Inr [OF stream_failed(2)]
    followProgress_Inl [OF stream_failed(3)]
  show ?thesis by simp
next
  case (local_only d s1 e s2 localImage)
  with inspect_Inr [OF local_only(1)] pull_Inl [OF local_only(2)]
    inspectImage_calls [OF local_only(4)]
  show ?thesis by simp
next
  case (refreshed d s1 st s2 out s3 localImage)
  with inspect_Inr [OF refreshed(1)] pull_Inr [OF refreshed(2)]
    followProgress_Inr [OF refreshed(3)] inspectImage_calls [OF refreshed(4)]
  show ?thesis by simp
qed

lemma detect_each_containers:
  "detect_each ns s = (bs, s') \<Longrightarrow> containers s' = containers s \<and> next_id s' = next_id s"
proof (induction ns arbitrary: s bs s')
  case Nil
  then show ?case by simp
next
  case (Cons n ns)
  obtain b s1 where det: "checkIfImageNeedsUpdate n s = (b, s1)"
    by (cases "checkIfImageNeedsUpdate n s")
  obtain cs s2 where rest: "detect_each ns s1 = (cs, s2)"
    by (cases "detect_each ns s1")
  from Cons.prems det rest have "s' = s2" by simp
  with Cons.IH [OF rest] detection_effect [OF det] show ?case by simp
qed

lemma loop_Completed_detect:
  "checkForUpdates_loop infos s = (Completed, s') \<Longrightarrow>
     \<exists>ns. map first_name infos = map Inr ns \<and> detect_each ns s = (map (\<lambda>_. False) ns, s')"
proof (induction infos arbitrary: s)
  case Nil
  then show ?case by simp
next
  case (Cons a infos)
  from Cons.prems obtain n where n: "first_name a = Inr n"
    by (cases "first_name a") simp_all
  obtain b s1 where det: "checkIfImageNeedsUpdate n s = (b, s1)"
    by (cases "checkIfImageNeedsUpdate n s")
  with Cons.prems n have nb: "\<not> b" and rest: "checkForUpdates_loop infos s1 = (Completed, s')"
    by (auto split: if_splits prod.splits)
  from Cons.IH [OF rest] obtain ns where
    ns: "map first_name infos = map Inr ns" "detect_each ns s1 = (map (\<lambda>_. False) ns, s')"
    by blast
  with n det nb show ?case
    by (intro exI [of _ "n # ns"]) simp
qed

lemma loop_Returned:
  "checkForUpdates_loop infos s = (Returned r, s') \<Longrightarrow>
     \<exists>pre info post n s1 s2.
        infos = pre @ info # post \<and> first_name info = Inr n
        \<and> checkForUpdates_loop pre s = (Completed, s1)
        \<and> checkIfImageNeedsUpdate n s1 = (True, s2)
        \<and> updateImage info n s2 = (r, s')"
proof (induction infos arbitrary: s)
  case Nil
  then show ?case by simp
next
  case (Cons a infos)
  from Cons.prems obtain n where n: "first_name a = Inr n"
    by (cases "first_name a") simp_all
  obtain b s1 where det: "checkIfImageNeedsUpdate n s = (b, s1)"
    by (cases "checkIfImageNeedsUpdate n s")
  show ?case
  proof (cases b)
    case True
    with Cons.prems n det have "updateImage a n s1 = (r, s')"
      by (auto split: prod.splits)
    with n det True show ?thesis
      by (intro exI [of _ "[]"] exI [of _ a] exI [of _ infos] exI [of _ n] exI [of _ s]
            exI [of _ s1]) simp
  next
    case False
    with Cons.prems n det have "checkForUpdates_loop infos s1 = (Returned r, s')"
      by simp
    from Cons.IH [OF this] obtain pre info post m t1 t2 where
      *: "infos = pre @ info # post" "first_name info = Inr m"
         "checkForUpdates_loop pre s1 = (Completed, t1)"
         "checkIfImageNeedsUpdate m t1 = (True, t2)" "updateImage info m t2 = (r, s')"
      by blast
    from * n det False have "checkForUpdates_loop (a # pre) s = (Completed, t1)" by simp
    with * show ?thesis
      by (intro exI [of _ "a # pre"] exI [of _ info] exI [of _ post] exI [of _ m]
            exI [of _ t1] exI [of _ t2]) simp
  qed
qed

lemma first_name_summary [simp]: "first_name (summary c) = Inr (cname c)"
  by (simp add: first_name_def summary_def get_field_def)

lemma listContainers_Inr:
  "listContainers s = (Inr infos, s0) \<Longrightarrow>
     infos = map summary (filter running (containers s))
     \<and> containers s0 = containers s \<and> images s0 = images s \<and> next_id s0 = next_id s
     \<and> registry s0 = registry s \<and> calls s0 = calls s @ [(ListContainers, None)]"
  unfolding listContainers_def by (erule engine_op_Inr) auto

lemma loop_never_throws:
  "list_all (\<lambda>i. \<exists>n. first_name i = Inr n) infos \<Longrightarrow> checkForUpdates_loop infos s \<noteq> (Threw e, s')"
proof (induction infos arbitrary: s)
  case Nil
  then show ?case by simp
next
  case (Cons a infos)
  then show ?case by (auto split: prod.splits if_splits)
qed

section \<open>The invariant of the engine\<close>

text \<open>
  Names and identifiers are unique and every identifier in use lies below the next one.
  Every operation of the engine keeps this, so every state that a pass can reach from a
  well-formed one is well-formed.
\<close>

lemma matches_unique:
  assumes "inj_on cname (set cs)" "inj_on cid (set cs)"
    and "c \<in> set cs" "c' \<in> set cs" "matches h c" "matches h c'"
  shows "c = c'"
  using assms by (cases h) (auto dest: inj_onD)

lemma wf_maps:
  "wf s \<longleftrightarrow> distinct (map cname (containers s)) \<and> distinct (map cid (containers s))
            \<and> list_all (\<lambda>i. i < next_id s) (map cid (containers s))"
  by (simp add: wf_def list.pred_map o_def)

lemma wf_cong:
  assumes "map cname (containers s') = map cname (containers s)"
    and "map cid (containers s') = map cid (containers s)" and "next_id s' = next_id s"
  shows "wf s' = wf s"
  using assms by (simp add: wf_maps)

lemma wf_rename:
  assumes "wf s" and "rename h n s = (r, s')"
  shows "wf s'"
proof (cases r)
  case (Inl e)
  with rename_Inl [of h n s e s'] assms show ?thesis by (simp add: wf_cong [of s' s])
next
  case (Inr u)
  note rn = rename_Inr [OF assms(2) [unfolded Inr]]
  let ?f = "\<lambda>c. if matches h c then c\<lparr>cname := n\<rparr> else c"
  from assms(1) have inj: "inj_on cname (set (containers s))" "inj_on cid (set (containers s))"
    and d: "distinct (containers s)"
    by (simp_all add: wf_def distinct_map)
  from rn have free: "\<forall>c\<in>set (containers s). cname c \<noteq> n"
    by (simp add: list_ex_iff)
  have "inj_on (\<lambda>c. cname (?f c)) (set (containers s))"
  proof (rule inj_onI)
    fix c c'
    assume *: "c \<in> set (containers s)" "c' \<in> set (containers s)" "cname (?f c) = cname (?f c')"
    show "c = c'"
    proof (cases "matches h c"; cases "matches h c'")
      assume "matches h c" "matches h c'"
      with inj * show ?thesis by (blast intro: matches_unique)
    next
      assume "matches h c" "\<not> matches h c'"
      with * free show ?thesis by auto
    next
      assume "\<not> matches h c" "matches h c'"
      with * free show ?thesis by auto
    next
      assume "\<not> matches h c" "\<not> matches h c'"
      with * inj show ?thesis by (auto dest: inj_onD)
    qed
  qed
  with d have "distinct (map (\<lambda>c. cname (?f c)) (containers s))"
    by (simp add: distinct_map)
  then have names: "distinct (map cname (containers s'))"
    using rn by (simp add: o_def)
  have ids: "map cid (containers s') = map cid (containers s)"
    using rn by (simp add: o_def if_distrib cong: if_cong)
  from rn have "next_id s' = next_id s" by simp
  with names ids assms(1) show ?thesis by (simp add: wf_maps)
qed

lemma wf_stop:
  assumes "wf s" and "stop h s = (r, s')"
  shows "wf s'"
proof (cases r)
  case (Inl e)
  with stop_Inl [of h s e s'] assms show ?thesis by (simp add: wf_cong [of s' s])
next
  case (Inr u)
  with stop_Inr [of h s u s'] assms show ?thesis
    by (simp add: wf_cong [of s' s] o_def if_distrib cong: if_cong)
qed

lemma wf_start:
  assumes "wf s" and "start h s = (r, s')"
  shows "wf s'"
proof (cases r)
  case (Inl e)
  with start_Inl [of h s e s'] assms show ?thesis by (simp add: wf_cong [of s' s])
next
  case (Inr u)
  with start_Inr [of h s u s'] assms show ?thesis
    by (simp add: wf_cong [of s' s] o_def if_distrib cong: if_cong)
qed

lemma wf_remove:
  assumes "wf s" and "remove h s = (r, s')"
  shows "wf s'"
proof (cases r)
  case (Inl e)
  with remove_Inl [of h s e s'] assms show ?thesis by (simp add: wf_cong [of s' s])
next
  case (Inr u)
  with remove_Inr [of h s u s'] assms show ?thesis
    by (simp add: wf_def distinct_map_filter list_all_iff)
qed

lemma wf_createContainer:
  assumes "wf s" and "createContainer p s = (r, s')"
  shows "wf s'"
proof (cases r)
  case (Inl e)
  with createContainer_Inl [of p s e s'] assms show ?thesis by (simp add: wf_cong [of s' s])
next
  case (Inr i)
  from createContainer_Inr [OF assms(2) [unfolded Inr]] obtain n ref img where
    *: "\<not> list_ex (\<lambda>c. cname c = n) (containers s)"
       "containers s' = containers s @ [created (next_id s) n ref img p]"
       "next_id s' = Suc (next_id s)"
    by blast
  from assms(1) have "\<forall>c\<in>set (containers s). cid c < next_id s"
    by (simp add: wf_def list_all_iff)
  then have "next_id s \<notin> cid ` set (containers s)" "\<forall>c\<in>set (containers s). cid c < Suc (next_id s)"
    by auto
  moreover from * have "n \<notin> cname ` set (containers s)" by (simp add: list_ex_name)
  ultimately show ?thesis using * assms(1)
    by (simp add: wf_def created_def list_all_iff)
qed

lemma wf_inspect:
  assumes "wf s" and "inspect h s = (r, s')"
  shows "wf s'"
proof (cases r)
  case (Inl e)
  with inspect_Inl [of h s e s'] assms show ?thesis by (simp add: wf_cong [of s' s])
next
  case (Inr u)
  with inspect_Inr [of h s u s'] assms show ?thesis by (simp add: wf_cong [of s' s])
qed

lemma wf_updateImage:
  assumes "wf s" and "updateImage info t s = (r, s')"
  shows "wf s'"
  using assms(2)
proof (cases rule: updateImage_paths)
  case (inspect_failed e)
  from wf_inspect [OF assms(1) inspect_failed(1)] show ?thesis .
next
  case (rename_failed d s0 e s1)
  from wf_inspect [OF assms(1) rename_failed(1)] have "wf s0" .
  from wf_rename [OF this rename_failed(2)] have "wf s1" .
  from wf_rename [OF this rename_failed(3)] show ?thesis .
next
  case (create_failed d s0 u s1 e s2)
  from wf_inspect [OF assms(1) create_failed(1)] have "wf s0" .
  from wf_rename [OF this create_failed(2)] have "wf s1" .
  from wf_createContainer [OF this create_failed(3)] have "wf s2" .
  from wf_rename [OF this create_failed(4)] show ?thesis .
next
  case (stop_failed d s0 u s1 newC s2 e s3)
  from wf_inspect [OF assms(1) stop_failed(1)] have "wf s0" .
  from wf_rename [OF this stop_failed(2)] have "wf s1" .
  from wf_createContainer [OF this stop_failed(3)] have "wf s2" .
  from wf_stop [OF this stop_failed(4)] have "wf s3" .
  from wf_rename [OF this stop_failed(5)] show ?thesis .
next
  case (remove_failed d s0 u s1 newC s2 v s3 x s4 e s5)
  from wf_inspect [OF assms(1) remove_failed(1)] have "wf s0" .
  from wf_rename [OF this remove_failed(2)] have "wf s1" .
  from wf_createContainer [OF this remove_failed(3)] have "wf s2" .
  from wf_stop [OF this remove_failed(4)] have "wf s3" .
  from wf_start [OF this remove_failed(5)] have "wf s4" .
  from wf_remove [OF this remove_failed(6)] have "wf s5" .
  from wf_rename [OF this remove_failed(7)] show ?thesis .
next
  case (completed d s0 u s1 newC s2 v s3 x s4 w)
  from wf_inspect [OF assms(1) completed(1)] have "wf s0" .
  from wf_rename [OF this completed(2)] have "wf s1" .
  from wf_createContainer [OF this completed(3)] have "wf s2" .
  from wf_stop [OF this completed(4)] have "wf s3" .
  from wf_start [OF this completed(5)] have "wf s4" .
  from wf_remove [OF this completed(6)] show ?thesis .
qed

lemma wf_checkForUpdates_loop:
  "wf s \<Longrightarrow> checkForUpdates_loop infos s = (out, s') \<Longrightarrow> wf s'"
proof (induction infos arbitrary: s)
  case Nil
  then show ?case by simp
next
  case (Cons a infos)
  show ?case
  proof (cases "first_name a")
    case (Inl e)
    with Cons.prems show ?thesis by simp
  next
    case (Inr n)
    obtain b s1 where det: "checkIfImageNeedsUpdate n s = (b, s1)"
      by (cases "checkIfImageNeedsUpdate n s")
    from detection_effect [OF det] Cons.prems(1) have wf1: "wf s1"
      by (simp add: wf_cong [of s1 s])
    show ?thesis
    proof (cases b)
      case True
      with Cons.prems(2) Inr det obtain r where "updateImage a n s1 = (r, s')"
        by (auto split: prod.splits)
      with wf1 show ?thesis by (rule wf_updateImage)
    next
      case False
      with Cons.prems(2) Inr det have "checkForUpdates_loop infos s1 = (out, s')" by simp
      with wf1 show ?thesis by (rule Cons.IH)
    qed
  qed
qed

lemma wf_checkForUpdates:
  assumes "wf s" and "checkForUpdates s = (r, s')"
  shows "wf s'"
proof -
  obtain a s0 where l: "listContainers s = (a, s0)" by (cases "listContainers s")
  have "containers s0 = containers s \<and> next_id s0 = next_id s"
    using l unfolding listContainers_def
    by (auto simp: engine_op_def split: option.splits)
  with assms(1) have wf0: "wf s0"
    by (simp add: wf_cong [of s0 s])
  show ?thesis
  proof (cases a)
    case (Inl e)
    with l assms(2) wf0 show ?thesis by (simp add: checkForUpdates_def)
  next
    case (Inr infos)
    obtain out t where loop: "checkForUpdates_loop infos s0 = (out, t)"
      by (cases "checkForUpdates_loop infos s0")
    with l Inr assms(2) have "s' = t"
      by (cases out) (simp_all add: checkForUpdates_def)
    with wf_checkForUpdates_loop [OF wf0 loop] show ?thesis by simp
  qed
qed


section \<open>The creation spec\<close>

text \<open>
  Claim C9, as the code has it. Read as an object, the creation spec of a replacement is
  the list entry of the container overlaid with the inspected \<^verbatim>\<open>Config\<close> (so the
  environment and the labels are those of the inspected record), with \<^verbatim>\<open>name\<close> forced to
  the target name and \<^verbatim>\<open>Image\<close> to the image reference, and with \<^verbatim>\<open>HostConfig\<close> replaced
  by an object whose only property is \<^verbatim>\<open>PortBindings\<close>, taken from the inspected
  \<^verbatim>\<open>NetworkSettings.Ports\<close>. Nothing of the inspected \<^verbatim>\<open>HostConfig\<close> or \<^verbatim>\<open>Mounts\<close> enters
  the spec.
\<close>

theorem creation_spec_fields:
  "get_field (createContainerPayload containerInfo containerData targetName) k =
     (if k = ''HostConfig'' then JObj [(''PortBindings'', d_Ports containerData)]
      else if k = ''name'' then JStr targetName
      else if k = ''Image'' then JStr (d_Config_Image containerData)
      else if k \<in> fst ` set (d_Config containerData) then get_field (d_Config containerData) k
      else get_field containerInfo k)"
proof (cases "map_of (d_Config containerData) k")
  case None
  then have "k \<notin> fst ` set (d_Config containerData)"
    by (simp add: map_of_eq_None_iff)
  with None show ?thesis
    by (simp add: get_field_def createContainerPayload_def update_conv' merge_conv' map_add_def)
next
  case (Some v)
  then have "k \<in> fst ` set (d_Config containerData)"
    by (metis map_of_eq_None_iff option.distinct(1))
  with Some show ?thesis
    by (simp add: get_field_def createContainerPayload_def update_conv' merge_conv' map_add_def)
qed

text \<open>
  Claim C9 as stated fails on \<open>web\<close>: the inspected record has a bind mount in its
  \<^verbatim>\<open>HostConfig\<close>, the creation spec has a \<^verbatim>\<open>HostConfig\<close> without it, and the container that
  a successful replacement creates has none.
\<close>

theorem creation_spec_counterexample:
  "get_field (d_HostConfig (data_of web)) ''Binds'' = JArr [JStr ''/srv/data:/data'']
   \<and> get_field (createContainerPayload (summary web) (data_of web) ''web'') ''HostConfig''
       = JObj [(''PortBindings'', ports web)]
   \<and> get_field (as_obj (get_field (createContainerPayload (summary web) (data_of web) ''web'')
        ''HostConfig'')) ''Binds'' = JUndef
   \<and> fst (replaced []) = Inr ()
   \<and> map (\<lambda>c. (cname c, get_field (host_config c) ''Binds'')) (containers (snd (replaced [])))
       = [(''web'', JUndef)]"
  by code_simp

section \<open>The replacement\<close>

text \<open>
  Claim C1. When \<^verbatim>\<open>updateImage\<close> runs on a container and every call it makes to the
  engine succeeds, then afterwards exactly one container holds the name \<open>targetName\<close>,
  none holds the temporary name \<open>targetName @ ''-old-temp''\<close>, and the container under
  \<open>targetName\<close> is a new one, created from the image reference of the container it
  replaces, with the image that the local cache holds under that reference. The
  temporary name is the one the old container was renamed to and removed under.
\<close>

theorem replace_success:
  assumes wf: "wf s"
    and run: "updateImage containerInfo targetName s = (r, s')"
    and ok: "list_all (\<lambda>x. snd x = None) (new_calls s s')"
  shows "\<exists>old new.
           named targetName s = [old] \<and> named targetName s' = [new]
           \<and> named (targetName @ ''-old-temp'') s' = []
           \<and> image_ref new = image_ref old
           \<and> map_of (images s') (image_ref new) = Some (image_id new)
           \<and> cid new \<notin> cid ` set (containers s)
           \<and> r = Inr ()
           \<and> (Rename (ByName targetName) (targetName @ ''-old-temp''), None)
                \<in> set (new_calls s s')
           \<and> (Remove (ByName (targetName @ ''-old-temp'')), None)
                \<in> set (new_calls s s')"
  using run
proof (cases rule: updateImage_cases)
  case (inspect_failed e)
  from inspect_Inl [OF inspect_failed(1)] ok show ?thesis by simp
next
  case (rolled_back d s0 e s1)
  note i = inspect_Inr [OF rolled_back(1)]
  have "\<exists>pre c. calls s1 = calls s @ pre @ [(c, Some e)]"
    using rolled_back(2)
  proof (cases rule: updateImage_try_cases)
    case (rename_failed e')
    from rename_Inl [OF rename_failed(1)] i rename_failed(2) show ?thesis by simp
  next
    case (create_failed u s1' e')
    from rename_Inr [OF create_failed(1)] createContainer_Inl [OF create_failed(2)] i create_failed(3)
    show ?thesis by simp
  next
    case (stop_failed u s1' newC s2 e')
    from rename_Inr [OF stop_failed(1)] createContainer_Inr [OF stop_failed(2)]
      stop_Inl [OF stop_failed(3)] i stop_failed(4)
    show ?thesis by simp
  next
    case (remove_failed u s1' newC s2 v s3 x s4 e')
    have "\<exists>y. calls s4 = calls s3 @ [(Start (ById newC), y)]"
      using start_Inl [of "ById newC" s3 _ s4] start_Inr [of "ById newC" s3 _ s4] remove_failed(4)
      by (cases x) auto
    with rename_Inr [OF remove_failed(1)] createContainer_Inr [OF remove_failed(2)]
      stop_Inr [OF remove_failed(3)] remove_Inl [OF remove_failed(5)] i remove_failed(6)
    show ?thesis by auto
  qed simp
  then obtain pre c where "calls s1 = calls s @ pre @ [(c, Some e)]" by blast
  moreover have "\<exists>y. calls s' = calls s1 @ [y]"
    using rename_Inl [of _ _ s1 _ s'] rename_Inr [of _ _ s1 _ s'] rolled_back(3)
    by (cases r) auto
  ultimately show ?thesis using ok by auto
next
  case outer: (completed d s0)
  note i = inspect_Inr [OF outer(1)]
  then obtain old where old: "find (matches (ByName targetName)) (containers s) = Some old"
    and d: "d = data_of old" by blast
  from find_SomeD [OF old] have old_in: "old \<in> set (containers s)" and old_name: "cname old = targetName"
    by simp_all
  from wf old_in old_name have named_old: "named targetName s = [old]"
    using distinct_filter_single [of cname "containers s" old] by (simp add: wf_def named_def)
  from outer(2) show ?thesis
  proof (cases rule: updateImage_try_cases)
    case (completed u s1 newC s2 v s3 x s4 w)
    note rn = rename_Inr [OF completed(1)]
    note cr = createContainer_Inr [OF completed(2)]
    note st = stop_Inr [OF completed(3)]
    note rm = remove_Inr [OF completed(5)]
    from cr obtain img where img: "map_of (images s1) (d_Config_Image d) = Some img"
      and cs2: "containers s2 = containers s1
          @ [created (next_id s1) targetName (d_Config_Image d) img (createContainerPayload containerInfo d targetName)]"
      by auto
    have log4: "calls s4 = calls s3 @ [(Start (ById newC), case x of Inl e \<Rightarrow> Some e | Inr _ \<Rightarrow> None)]"
      using start_Inl [of "ById newC" s3 _ s4] start_Inr [of "ById newC" s3 _ s4] completed(4)
      by (cases x) auto
    with ok i rn cr st rm have "\<exists>z. x = Inr z" by (cases x) auto
    then obtain z where x: "x = Inr z" ..
    note sa = start_Inr [OF completed(4) [unfolded x]]
    define new where "new = (created (next_id s) targetName (d_Config_Image d) img
        (createContainerPayload containerInfo d targetName))\<lparr>running := True\<rparr>"
    have "named targetName s' = [new]"
      using i rn cr st sa rm cs2
      by (simp add: named_def filter_map o_def new_def created_def cong: if_cong)
    moreover have "named (targetName @ ''-old-temp'') s' = []"
      using rm by (simp add: named_def filter_empty_conv oldContainerName_def)
    moreover have "image_ref new = image_ref old"
      by (simp add: new_def created_def d data_of_def)
    moreover have "map_of (images s') (image_ref new) = Some (image_id new)"
      using img i rn cr st sa rm by (simp add: new_def created_def)
    moreover have "cid new \<notin> cid ` set (containers s)"
      using wf by (auto simp: wf_def new_def created_def list_all_iff)
    moreover have "(Rename (ByName targetName) (targetName @ ''-old-temp''), None)
                \<in> set (new_calls s s')"
      and "(Remove (ByName (targetName @ ''-old-temp'')), None) \<in> set (new_calls s s')"
      using i rn cr st sa rm by (simp_all add: oldContainerName_def)
    ultimately show ?thesis using named_old outer(3)
      by (intro exI [of _ old] exI [of _ new]) simp
  qed (simp_all)
qed

text \<open>The successful replacement of \<open>web\<close>.\<close>

theorem replace_success_witness:
  "wf (host pulled [])
   \<and> list_all (\<lambda>x. snd x = None) (new_calls (host pulled []) (snd (replaced [])))
   \<and> (\<exists>old new.
         named ''web'' (host pulled []) = [old]
         \<and> named ''web'' (snd (replaced [])) = [new]
         \<and> named ''web-old-temp'' (snd (replaced [])) = []
         \<and> image_ref new = image_ref old
         \<and> map_of (images (snd (replaced []))) (image_ref new) = Some (image_id new)
         \<and> cid new \<notin> cid ` set (containers (host pulled []))
         \<and> fst (replaced []) = Inr ()
         \<and> (Rename (ByName ''web'') ''web-old-temp'', None)
              \<in> set (new_calls (host pulled []) (snd (replaced [])))
         \<and> (Remove (ByName ''web-old-temp''), None)
              \<in> set (new_calls (host pulled []) (snd (replaced []))))"
proof -
  have 1: "wf (host pulled [])" by code_simp
  have 2: "updateImage (summary web) ''web'' (host pulled []) = (fst (replaced []), snd (replaced []))"
    by (simp add: replaced_def)
  have 3: "list_all (\<lambda>x. snd x = None) (new_calls (host pulled []) (snd (replaced [])))"
    by code_simp
  from replace_success [OF 1 2 3] 1 3 show ?thesis by simp
qed

text \<open>
  Claim C2, at a failing input. The start of the new container is call 4 of the
  replacement and fails; \<^verbatim>\<open>updateImage\<close> does not see the failure: the next call is the
  removal of the old container, no rename back follows, and the promise resolves. The
  host is left with the new container, not running.
\<close>

theorem removal_does_not_wait_for_start:
  "fst (replaced [None, None, None, None, Some boom]) = Inr ()
   \<and> drop 4 (calls (snd (replaced [None, None, None, None, Some boom])))
       = [(Start (ById 1), Some boom), (Remove (ByName ''web-old-temp''), None)]
   \<and> brief (snd (replaced [None, None, None, None, Some boom]))
       = [(1, ''web'', False, ''sha:BBB'')]"
  by code_simp

text \<open>
  The same holds on every engine: whenever the start fails during a replacement, the
  removal of the old container is still among the calls.
\<close>

lemma start_failure_goes_unnoticed:
  assumes "updateImage containerInfo targetName s = (r, s')"
    and "(Start h, Some e) \<in> set (new_calls s s')"
  shows "\<exists>x. (Remove (ByName (oldContainerName targetName)), x) \<in> set (new_calls s s')"
  using assms(1)
proof (cases rule: updateImage_paths)
  case (remove_failed d s0 u s1 newC s2 v s3 x s4 e' s5)
  then show ?thesis by simp
next
  case (completed d s0 u s1 newC s2 v s3 x s4 w)
  then show ?thesis by simp
qed (use assms(2) in simp_all)

text \<open>
  Claim C3, at two failing inputs. When the start of the new container fails (call 4),
  the failure is not seen: the removal follows, no rename back is made, and the
  container left under \<open>web\<close> is the new one, not running; the original is gone. When
  the stop of the old container fails (call 3), the rename back is made and refused,
  since the new container holds the name: \<^verbatim>\<open>updateImage\<close> rejects, the original stays
  under \<open>web-old-temp\<close>, still running, and the container under \<open>web\<close> is the new one.
\<close>

theorem failed_stop_or_start_is_not_rolled_back:
  "drop 4 (calls (snd (replaced [None, None, None, None, Some boom])))
     = [(Start (ById 1), Some boom), (Remove (ByName ''web-old-temp''), None)]
   \<and> brief (snd (replaced [None, None, None, None, Some boom]))
       = [(1, ''web'', False, ''sha:BBB'')]
   \<and> drop 3 (calls (snd (replaced [None, None, None, Some boom])))
       = [(Stop (ByName ''web-old-temp''), Some boom),
          (Rename (ByName ''web-old-temp'') ''web'', Some conflict)]
   \<and> fst (replaced [None, None, None, Some boom]) = Inl conflict
   \<and> brief (snd (replaced [None, None, None, Some boom]))
       = [(0, ''web-old-temp'', True, ''sha:AAA''), (1, ''web'', False, ''sha:BBB'')]"
  by code_simp

text \<open>
  What does hold of the rollback, on every engine: when the creation of the new
  container fails, the last call of \<^verbatim>\<open>updateImage\<close> is the rename of
  \<open>targetName @ ''-old-temp''\<close> back to \<open>targetName\<close>; when that rename succeeds,
  \<^verbatim>\<open>updateImage\<close> resolves, the containers are what they were before, exactly one is
  named \<open>targetName\<close> and none \<open>targetName @ ''-old-temp''\<close>.
\<close>

lemma rollback_after_failed_create:
  assumes wf: "wf s"
    and run: "updateImage containerInfo targetName s = (r, s')"
    and failed: "(CreateContainer payload, Some e) \<in> set (new_calls s s')"
  shows "last (new_calls s s')
           = (Rename (ByName (targetName @ ''-old-temp'')) targetName, outcome r)
         \<and> (r = Inr () \<longrightarrow>
               containers s' = containers s
               \<and> length (named targetName s') = 1
               \<and> named (targetName @ ''-old-temp'') s' = [])"
  using run
proof (cases rule: updateImage_paths)
  case (create_failed d s0 u s1 e' s2)
  note i = inspect_Inr [OF create_failed(1)]
  note rn = rename_Inr [OF create_failed(2)]
  note cr = createContainer_Inl [OF create_failed(3)]
  from i obtain old where old: "find (matches (ByName targetName)) (containers s) = Some old"
    by blast
  have restored: "containers s' = containers s" if "r = Inr ()"
  proof -
    from create_failed(4) that
    have "rename (ByName (oldContainerName targetName)) targetName s2 = (Inr (), s')" by simp
    from rename_Inr [OF this] i rn cr show ?thesis
      by (simp add: rename_there_and_back)
  qed
  have "named (oldContainerName targetName) s = []"
    using i rn by (simp add: named_def filter_empty_conv list_ex_iff)
  with restored named_single [OF wf old] create_failed(5) show ?thesis
    by (simp add: named_def oldContainerName_def)
qed (use failed in simp_all)

text \<open>The creation fails for \<open>web\<close> and the rename back succeeds.\<close>

lemma rollback_after_failed_create_on_web:
  "wf (host pulled [None, None, Some boom])
   \<and> (CreateContainer (createContainerPayload (summary web) (data_of web) ''web''), Some boom)
        \<in> set (new_calls (host pulled [None, None, Some boom])
                 (snd (replaced [None, None, Some boom])))
   \<and> fst (replaced [None, None, Some boom]) = Inr ()
   \<and> last (new_calls (host pulled [None, None, Some boom]) (snd (replaced [None, None, Some boom])))
       = (Rename (ByName ''web-old-temp'') ''web'', None)
   \<and> containers (snd (replaced [None, None, Some boom])) = [web]
   \<and> length (named ''web'' (snd (replaced [None, None, Some boom]))) = 1
   \<and> named ''web-old-temp'' (snd (replaced [None, None, Some boom])) = []"
proof -
  let ?s = "host pulled [None, None, Some boom]"
  let ?run = "replaced [None, None, Some boom]"
  have 1: "wf ?s" by code_simp
  have 2: "updateImage (summary web) ''web'' ?s = (fst ?run, snd ?run)"
    by (simp add: replaced_def)
  have 3: "(CreateContainer (createContainerPayload (summary web) (data_of web) ''web''), Some boom)
        \<in> set (new_calls ?s (snd ?run))"
    by code_simp
  have 4: "fst ?run = Inr ()" by code_simp
  have 5: "containers ?s = [web]" by (simp add: host_def)
  from rollback_after_failed_create [OF 1 2 3] 1 3 4 5 show ?thesis
    by simp
qed

text \<open>
  Claim C4, at a failing input. The removal of the old \<open>web\<close> fails (call 5), after
  every step before it has succeeded. The failure reaches the \<^verbatim>\<open>catch\<close> block: a rename
  of \<open>web-old-temp\<close> back to \<open>web\<close> is attempted, the engine refuses it, since the new
  container holds the name, and \<^verbatim>\<open>updateImage\<close> rejects with the error of that rename.
\<close>

theorem failed_removal_triggers_rollback:
  "map snd (calls (snd (replaced [None, None, None, None, None, Some boom])))
     = [None, None, None, None, None, Some boom, Some conflict]
   \<and> drop 5 (calls (snd (replaced [None, None, None, None, None, Some boom])))
       = [(Remove (ByName ''web-old-temp''), Some boom),
          (Rename (ByName ''web-old-temp'') ''web'', Some conflict)]
   \<and> fst (replaced [None, None, None, None, None, Some boom]) = Inl conflict
   \<and> brief (snd (replaced [None, None, None, None, None, Some boom]))
       = [(0, ''web-old-temp'', False, ''sha:AAA''), (1, ''web'', True, ''sha:BBB'')]"
  by code_simp

text \<open>
  The same on every engine: when the removal fails, the last call of \<^verbatim>\<open>updateImage\<close> is
  the rename of \<open>targetName @ ''-old-temp''\<close> back to \<open>targetName\<close>, that rename fails,
  \<^verbatim>\<open>updateImage\<close> rejects with its error, the new container keeps the name \<open>targetName\<close>
  and the old one stays under \<open>targetName @ ''-old-temp''\<close>.
\<close>

lemma failed_removal_rolls_back:
  assumes wf: "wf s"
    and run: "updateImage containerInfo targetName s = (r, s')"
    and failed: "(Remove h, Some e) \<in> set (new_calls s s')"
  shows "\<exists>e' old new.
           r = Inl e'
           \<and> last (new_calls s s')
               = (Rename (ByName (targetName @ ''-old-temp'')) targetName, Some e')
           \<and> named targetName s = [old]
           \<and> named targetName s' = [new] \<and> cid new = next_id s
           \<and> map cid (named (targetName @ ''-old-temp'') s') = [cid old]"
  using run
proof (cases rule: updateImage_paths)
  case (remove_failed d s0 u s1 newC s2 v s3 x s4 e' s5)
  note i = inspect_Inr [OF remove_failed(1)]
  note rn = rename_Inr [OF remove_failed(2)]
  note cr = createContainer_Inr [OF remove_failed(3)]
  note st = stop_Inr [OF remove_failed(4)]
  note rm = remove_Inl [OF remove_failed(6)]
  let ?old = "oldContainerName targetName"
  from i obtain old where old: "find (matches (ByName targetName)) (containers s) = Some old"
    and d: "d = data_of old" by blast
  note named_old = named_single [OF wf old]
  from cr obtain img where
    cs2: "containers s2 = containers s1
          @ [created (next_id s1) targetName (d_Config_Image d) img
               (createContainerPayload containerInfo d targetName)]"
    by auto
  define nc where "nc = created (next_id s) targetName (d_Config_Image d) img
               (createContainerPayload containerInfo d targetName)"
  have free: "\<forall>c\<in>set (containers s). cname c \<noteq> ?old"
    using i rn by (simp add: list_ex_iff)
  have ids: "\<forall>c\<in>set (containers s). cid c \<noteq> next_id s"
    using wf by (auto simp: wf_def list_all_iff)
  have moved: "filter (\<lambda>c. (if cname c = targetName then ?old else cname c) = ?old) (containers s)
        = filter (\<lambda>c. cname c = targetName) (containers s)"
    using free by (intro filter_cong) auto
  have gone: "filter (\<lambda>c. (if cname c = targetName then ?old else cname c) = targetName) (containers s) = []"
    by (simp add: filter_empty_conv)
  have cs4: "\<exists>new. filter (\<lambda>c. cname c = targetName) (containers s4) = [new] \<and> cid new = next_id s"
    and old4: "map cid (filter (\<lambda>c. cname c = ?old) (containers s4)) = [cid old]"
  proof -
    show "\<exists>new. filter (\<lambda>c. cname c = targetName) (containers s4) = [new] \<and> cid new = next_id s"
    proof (cases x)
      case (Inl a)
      with start_Inl [of "ById newC" s3 a s4] remove_failed(5) i rn cr st cs2 gone
      show ?thesis
        by (simp add: filter_map o_def created_def if_distrib [of cname] cong: if_cong)
    next
      case (Inr b)
      with start_Inr [of "ById newC" s3 b s4] remove_failed(5) i rn cr st cs2 gone
      show ?thesis
        by (simp add: filter_map o_def created_def if_distrib [of cname] cong: if_cong)
    qed
    show "map cid (filter (\<lambda>c. cname c = ?old) (containers s4)) = [cid old]"
    proof (cases x)
      case (Inl a)
      with start_Inl [of "ById newC" s3 a s4] remove_failed(5) i rn cr st cs2 moved named_old
      show ?thesis
        by (simp add: named_def filter_map o_def created_def if_distrib [of cname] cong: if_cong)
    next
      case (Inr b)
      with start_Inr [of "ById newC" s3 b s4] remove_failed(5) i rn cr st cs2 moved named_old
      show ?thesis
        by (simp add: named_def filter_map o_def created_def if_distrib [of cname] cong: if_cong)
    qed
  qed
  have taken: "list_ex (\<lambda>c. cname c = targetName) (containers s5)"
  proof -
    from cs4 obtain new where "filter (\<lambda>c. cname c = targetName) (containers s4) = [new]" by blast
    then have "new \<in> set (filter (\<lambda>c. cname c = targetName) (containers s4))" by simp
    with rm show ?thesis by (auto simp: list_ex_iff)
  qed
  have rejected: "\<exists>e'. r = Inl e'"
  proof (cases r)
    case (Inr b)
    with rename_Inr [of "ByName ?old" targetName s5 b s'] remove_failed(7) taken
    show ?thesis by simp
  qed simp
  then obtain e'' where r: "r = Inl e''" ..
  from rename_Inl [OF remove_failed(7) [unfolded r]] rm
  have same: "containers s' = containers s4" by simp
  from cs4 obtain new where new: "filter (\<lambda>c. cname c = targetName) (containers s4) = [new]"
    "cid new = next_id s" by blast
  show ?thesis
    using r remove_failed(8) named_old new old4 same
    by (intro exI [of _ e''] exI [of _ old] exI [of _ new])
       (simp add: named_def oldContainerName_def)
qed (use failed in simp_all)

text \<open>The removal of the old \<open>web\<close> fails (call 5).\<close>

lemma failed_removal_rolls_back_on_web:
  "wf (host pulled [None, None, None, None, None, Some boom])
   \<and> (Remove (ByName ''web-old-temp''), Some boom)
        \<in> set (new_calls (host pulled [None, None, None, None, None, Some boom])
                 (snd (replaced [None, None, None, None, None, Some boom])))
   \<and> (\<exists>e' old new.
         fst (replaced [None, None, None, None, None, Some boom]) = Inl e'
         \<and> last (new_calls (host pulled [None, None, None, None, None, Some boom])
                  (snd (replaced [None, None, None, None, None, Some boom])))
             = (Rename (ByName ''web-old-temp'') ''web'', Some e')
         \<and> named ''web'' (host pulled [None, None, None, None, None, Some boom]) = [old]
         \<and> named ''web'' (snd (replaced [None, None, None, None, None, Some boom])) = [new]
         \<and> cid new = next_id (host pulled [None, None, None, None, None, Some boom])
         \<and> map cid (named ''web-old-temp''
                       (snd (replaced [None, None, None, None, None, Some boom]))) = [cid old])"
proof -
  let ?s = "host pulled [None, None, None, None, None, Some boom]"
  let ?run = "replaced [None, None, None, None, None, Some boom]"
  have 1: "wf ?s" by code_simp
  have 2: "updateImage (summary web) ''web'' ?s = (fst ?run, snd ?run)"
    by (simp add: replaced_def)
  have 3: "(Remove (ByName ''web-old-temp''), Some boom) \<in> set (new_calls ?s (snd ?run))"
    by code_simp
  from failed_removal_rolls_back [OF 1 2 3] 1 3 show ?thesis by simp
qed

section \<open>Drift detection\<close>




text \<open>
  Claim C7, as the code has it. When the inspect of the container succeeds, the pull is
  not rejected (the only calls that fail are a pull answering 401 or 404 and the inspect
  of the local image), and the local cache holds no image under the container's
  reference after the pull attempt, the result is \<^verbatim>\<open>false\<close>.
\<close>

theorem no_local_image_no_update:
  assumes run: "checkIfImageNeedsUpdate containerName s = (b, s')"
    and it: "find (matches (ByName containerName)) (containers s) = Some c"
    and uncached: "map_of (images s') (image_ref c) = None"
    and soft: "\<forall>x e. (x, Some e) \<in> set (new_calls s s') \<longrightarrow>
                 (\<exists>y. x = InspectImage y)
                 \<or> (\<exists>y. x = PullImage y) \<and> (statusCode e = Some 401 \<or> statusCode e = Some 404)"
  shows "\<not> b"
  using run
proof (cases rule: checkIfImageNeedsUpdate_paths)
  case (local_only d s1 e' s2 localImage)
  from inspect_Inr [OF local_only(1)] it have d: "d_Config_Image d = image_ref c"
    by (auto simp: data_of_def)
  show ?thesis
  proof (cases localImage)
    case (Inr img)
    with inspectImage_Inr [of "d_Config_Image d" s2 img s'] local_only(4) uncached d
    show ?thesis by simp
  qed (simp add: local_only(5) differs_def)
next
  case (refreshed d s1 st s2 out s3 localImage)
  from inspect_Inr [OF refreshed(1)] it have d: "d_Config_Image d = image_ref c"
    by (auto simp: data_of_def)
  show ?thesis
  proof (cases localImage)
    case (Inr img)
    with inspectImage_Inr [of "d_Config_Image d" s3 img s'] refreshed(4) uncached d
    show ?thesis by simp
  qed (simp add: refreshed(5) differs_def)
qed (use soft in auto)

text \<open>The registry answers 404 for the image of \<open>web\<close> and the cache is empty.\<close>

theorem no_local_image_no_update_witness:
  "find (matches (ByName ''web'')) (containers (host [] [None, Some not_found])) = Some web
   \<and> map_of (images (snd (checkIfImageNeedsUpdate ''web'' (host [] [None, Some not_found]))))
        (image_ref web) = None
   \<and> new_calls (host [] [None, Some not_found])
        (snd (checkIfImageNeedsUpdate ''web'' (host [] [None, Some not_found])))
       = [(InspectContainer (ByName ''web''), None), (PullImage ''app:latest'', Some not_found),
          (InspectImage ''app:latest'', Some not_found)]
   \<and> \<not> fst (checkIfImageNeedsUpdate ''web'' (host [] [None, Some not_found]))"
proof -
  let ?s = "host [] [None, Some not_found]"
  let ?run = "checkIfImageNeedsUpdate ''web'' ?s"
  have 1: "?run = (fst ?run, snd ?run)" by simp
  have 2: "find (matches (ByName ''web'')) (containers ?s) = Some web" by code_simp
  have 3: "map_of (images (snd ?run)) (image_ref web) = None" by code_simp
  have 4: "new_calls ?s (snd ?run)
       = [(InspectContainer (ByName ''web''), None), (PullImage ''app:latest'', Some not_found),
          (InspectImage ''app:latest'', Some not_found)]"
    by code_simp
  have 5: "\<forall>x e. (x, Some e) \<in> set (new_calls ?s (snd ?run)) \<longrightarrow>
             (\<exists>y. x = InspectImage y)
             \<or> (\<exists>y. x = PullImage y) \<and> (statusCode e = Some 401 \<or> statusCode e = Some 404)"
    unfolding 4 by (auto simp: not_found_def)
  from no_local_image_no_update [OF 1 2 3 5] 2 3 4 show ?thesis by simp
qed

text \<open>
  Claim C7 as stated fails on \<open>web\<close> with an empty cache: the inspect of the container
  succeeds, the pull fails with status 500, no image is cached afterwards, and the
  result is \<^verbatim>\<open>true\<close>.
\<close>

theorem no_local_image_counterexample:
  "calls (snd (checkIfImageNeedsUpdate ''web'' (host [] [None, Some boom])))
     = [(InspectContainer (ByName ''web''), None), (PullImage ''app:latest'', Some boom)]
   \<and> images (snd (checkIfImageNeedsUpdate ''web'' (host [] [None, Some boom]))) = []
   \<and> fst (checkIfImageNeedsUpdate ''web'' (host [] [None, Some boom])) = True"
  by code_simp

text \<open>
  Claim C8, as the code has it. When the pull fails with a status other than 401 and
  404, detection ends there: the result is \<^verbatim>\<open>true\<close>, and the calls made are the inspect
  of the container and the pull; the local image is not inspected.
\<close>

theorem hard_pull_failure_is_drift:
  assumes run: "checkIfImageNeedsUpdate containerName s = (b, s')"
    and failed: "(PullImage ref, Some e) \<in> set (new_calls s s')"
    and hard: "statusCode e \<noteq> Some 401" "statusCode e \<noteq> Some 404"
  shows "b \<and> new_calls s s'
               = [(InspectContainer (ByName containerName), None), (PullImage ref, Some e)]"
  using run
proof (cases rule: checkIfImageNeedsUpdate_paths)
  case (pull_failed d s1 e')
  with failed show ?thesis by simp
next
  case (local_only d s1 e' s2 localImage)
  with failed hard show ?thesis by auto
qed (use failed in auto)

text \<open>The pull fails with status 500 for \<open>web\<close>.\<close>

theorem hard_pull_failure_is_drift_witness:
  "(PullImage ''app:latest'', Some boom)
     \<in> set (new_calls (host stale [None, Some boom])
              (snd (checkIfImageNeedsUpdate ''web'' (host stale [None, Some boom]))))
   \<and> statusCode boom \<noteq> Some 401 \<and> statusCode boom \<noteq> Some 404
   \<and> fst (checkIfImageNeedsUpdate ''web'' (host stale [None, Some boom]))
   \<and> new_calls (host stale [None, Some boom])
        (snd (checkIfImageNeedsUpdate ''web'' (host stale [None, Some boom])))
       = [(InspectContainer (ByName ''web''), None), (PullImage ''app:latest'', Some boom)]"
proof -
  let ?s = "host stale [None, Some boom]"
  let ?run = "checkIfImageNeedsUpdate ''web'' ?s"
  have 1: "?run = (fst ?run, snd ?run)" by simp
  have 2: "(PullImage ''app:latest'', Some boom) \<in> set (new_calls ?s (snd ?run))"
    by code_simp
  have 3: "statusCode boom \<noteq> Some 401" "statusCode boom \<noteq> Some 404"
    by (simp_all add: boom_def)
  from hard_pull_failure_is_drift [OF 1 2 3] 2 3 show ?thesis by simp
qed

text \<open>
  Claim C8 as stated fails on \<open>web\<close>: the cache holds the very image the container
  runs, so a comparison would give no update; the pull fails with status 500, the local
  image is never inspected, no inspect fails, and the result is \<^verbatim>\<open>true\<close>.
\<close>

theorem hard_pull_failure_counterexample:
  "map_of (images (host stale [None, Some boom])) (image_ref web) = Some (image_id web)
   \<and> calls (snd (checkIfImageNeedsUpdate ''web'' (host stale [None, Some boom])))
       = [(InspectContainer (ByName ''web''), None), (PullImage ''app:latest'', Some boom)]
   \<and> fst (checkIfImageNeedsUpdate ''web'' (host stale [None, Some boom])) = True"
  by code_simp

section \<open>The reconciliation pass\<close>

text \<open>
  Claim C10. Let \<open>infos\<close> be the list that \<^verbatim>\<open>listContainers\<close> answers. Either the list
  splits at a first container needing an update: drift detection, run on the names of
  the containers before it one after the other in listing order, answers \<^verbatim>\<open>false\<close> for
  each of them; run next on that container it answers \<^verbatim>\<open>true\<close>; no container has changed
  so far; and the pass is the replacement of that container, started in the state that
  these detections leave: its result is the result of the pass and its final state the
  final state of the pass, whatever follows the container in the list. Or detection, run
  on the names of all listed containers in listing order, answers \<^verbatim>\<open>false\<close> for each of
  them and leaves the final state of the pass, the pass resolves and no container has
  changed.
\<close>

theorem one_replacement_per_pass:
  assumes listing: "listContainers s = (Inr infos, s0)"
    and pass: "checkForUpdates s = (r, s')"
  shows "(\<exists>pre info post ns n s1 s2.
            infos = pre @ info # post
            \<and> map first_name pre = map Inr ns
            \<and> detect_each ns s0 = (map (\<lambda>_. False) ns, s1)
            \<and> first_name info = Inr n
            \<and> checkIfImageNeedsUpdate n s1 = (True, s2)
            \<and> containers s2 = containers s
            \<and> updateImage info n s2 = (r, s'))
         \<or> (\<exists>ns. map first_name infos = map Inr ns
               \<and> detect_each ns s0 = (map (\<lambda>_. False) ns, s')
               \<and> r = Inr ()
               \<and> containers s' = containers s)"
proof -
  note l = listContainers_Inr [OF listing]
  obtain out t where loop: "checkForUpdates_loop infos s0 = (out, t)"
    by (cases "checkForUpdates_loop infos s0")
  have wellformed: "list_all (\<lambda>i. \<exists>n. first_name i = Inr n) infos"
    using l by (simp add: list_all_iff)
  show ?thesis
  proof (cases out)
    case Completed
    with listing pass loop have rs: "r = Inr ()" "s' = t"
      by (simp_all add: checkForUpdates_def)
    from loop_Completed_detect [of infos s0 s'] loop Completed rs obtain ns where
      ns: "map first_name infos = map Inr ns" "detect_each ns s0 = (map (\<lambda>_. False) ns, s')"
      by blast
    from detect_each_containers [OF ns(2)] l have "containers s' = containers s" by simp
    with ns rs show ?thesis by blast
  next
    case (Threw e)
    with loop_never_throws [OF wellformed, of s0 e t] loop show ?thesis by simp
  next
    case (Returned x)
    with listing pass loop have rs: "r = x" "s' = t"
      by (simp_all add: checkForUpdates_def)
    from loop_Returned [of infos s0 r s'] loop Returned rs
    obtain pre info post n s1 s2 where
      *: "infos = pre @ info # post" "first_name info = Inr n"
         "checkForUpdates_loop pre s0 = (Completed, s1)"
         "checkIfImageNeedsUpdate n s1 = (True, s2)" "updateImage info n s2 = (r, s')"
      by blast
    from loop_Completed_detect [OF *(3)] obtain ns where
      ns: "map first_name pre = map Inr ns" "detect_each ns s0 = (map (\<lambda>_. False) ns, s1)"
      by blast
    from detect_each_containers [OF ns(2)] detection_effect [OF *(4)] l
    have "containers s2 = containers s" by simp
    with * ns show ?thesis
      by (intro disjI1 exI [of _ pre] exI [of _ info] exI [of _ post] exI [of _ ns]
            exI [of _ n] exI [of _ s1] exI [of _ s2]) simp
  qed
qed

text \<open>
  A pass over \<open>proxy\<close>, up to date, and \<open>web\<close> and \<open>db\<close>, both outdated, listed in this
  order: \<open>proxy\<close> is evaluated and left alone, \<open>web\<close> is replaced, and \<open>db\<close> is neither
  inspected nor changed.
\<close>

theorem one_replacement_per_pass_witness:
  "listContainers yard
     = (Inr [summary proxy, summary web, summary db], snd (listContainers yard))
   \<and> ((\<exists>pre info post ns n s1 s2.
          [summary proxy, summary web, summary db] = pre @ info # post
          \<and> map first_name pre = map Inr ns
          \<and> detect_each ns (snd (listContainers yard)) = (map (\<lambda>_. False) ns, s1)
          \<and> first_name info = Inr n
          \<and> checkIfImageNeedsUpdate n s1 = (True, s2)
          \<and> containers s2 = containers yard
          \<and> updateImage info n s2 = (fst (checkForUpdates yard), snd (checkForUpdates yard)))
       \<or> (\<exists>ns. map first_name [summary proxy, summary web, summary db] = map Inr ns
             \<and> detect_each ns (snd (listContainers yard))
                 = (map (\<lambda>_. False) ns, snd (checkForUpdates yard))
             \<and> fst (checkForUpdates yard) = Inr ()
             \<and> containers (snd (checkForUpdates yard)) = containers yard))
   \<and> fst (detect_each [''proxy''] (snd (listContainers yard))) = [False]
   \<and> fst (checkIfImageNeedsUpdate ''web''
            (snd (detect_each [''proxy''] (snd (listContainers yard))))) = True
   \<and> updateImage (summary web) ''web''
        (snd (checkIfImageNeedsUpdate ''web''
               (snd (detect_each [''proxy''] (snd (listContainers yard))))))
       = checkForUpdates yard
   \<and> inspected (calls (snd (checkForUpdates yard))) = [''proxy'', ''web'', ''web'']
   \<and> brief (snd (checkForUpdates yard))
       = [(2, ''proxy'', True, ''sha:EEE''), (1, ''db'', True, ''sha:CCC''),
          (3, ''web'', True, ''sha:BBB'')]"
proof -
  have 1: "listContainers yard
     = (Inr [summary proxy, summary web, summary db], snd (listContainers yard))"
    by (simp add: listContainers_def engine_op_def next_fault_def yard_def web_def db_def
          proxy_def)
  have 2: "checkForUpdates yard = (fst (checkForUpdates yard), snd (checkForUpdates yard))"
    by simp
  have 3: "fst (detect_each [''proxy''] (snd (listContainers yard))) = [False]"
    by code_simp
  have 4: "fst (checkIfImageNeedsUpdate ''web''
            (snd (detect_each [''proxy''] (snd (listContainers yard))))) = True"
    by code_simp
  have 5: "updateImage (summary web) ''web''
        (snd (checkIfImageNeedsUpdate ''web''
               (snd (detect_each [''proxy''] (snd (listContainers yard))))))
       = checkForUpdates yard"
    by code_simp
  have 6: "inspected (calls (snd (checkForUpdates yard))) = [''proxy'', ''web'', ''web'']"
    by code_simp
  have 7: "brief (snd (checkForUpdates yard))
       = [(2, ''proxy'', True, ''sha:EEE''), (1, ''db'', True, ''sha:CCC''),
          (3, ''web'', True, ''sha:BBB'')]"
    by code_simp
  from one_replacement_per_pass [OF 1 2] 1 3 4 5 6 7 show ?thesis by simp
qed

text \<open>
  Claim C5, at a failing input. A pass over \<open>web\<close> finds drift and starts the
  replacement; the creation of the new container fails (call 7 of the pass) and the
  rename back fails too (call 8). The promise of \<^verbatim>\<open>checkForUpdates\<close> rejects with the
  error of the engine, and the container is left under \<open>web-old-temp\<close>. The same happens
  when the inspect that opens the replacement fails (call 5).
\<close>

theorem pass_rejects:
  "fst (checkForUpdates
          (host stale [None, None, None, None, None, None, None, Some boom, Some boom]))
     = Inl boom
   \<and> brief (snd (checkForUpdates
          (host stale [None, None, None, None, None, None, None, Some boom, Some boom])))
       = [(0, ''web-old-temp'', True, ''sha:AAA'')]
   \<and> fst (checkForUpdates (host stale [None, None, None, None, None, Some boom])) = Inl boom"
  by code_simp


end
